theory Spec2Isabelle
  imports Main "HOL-Library.Multiset"
begin

section \<open>Data model of \<open>src/src/App.jsx\<close>\<close>

text \<open>
  The parser \<open>parseDiff\<close> builds plain JavaScript objects. A line object is
  \<open>{content, type}\<close> with \<open>type\<close> one of the strings \<open>'context'\<close>, \<open>'add'\<close>,
  \<open>'delete'\<close>, \<open>'no-newline'\<close>; a hunk is \<open>{header, lines, oldStart, newStart}\<close>; a file is
  \<open>{header, oldName, newName, meta, hunks}\<close>. Strings are modelled as \<open>string\<close>; every
  prefix the code tests is ASCII. Line numbers are natural numbers: \<open>parseInt\<close> is applied
  to a non-empty run of decimal digits only (JavaScript would round a run denoting more
  than \<open>2^53\<close> to a double; the model keeps the exact value).
\<close>

datatype line_type = Context | Add | Delete | NoNewline

record diff_line =
  content :: string
  type :: line_type

record hunk =
  header :: string
  lines :: "diff_line list"
  oldStart :: nat
  newStart :: nat

record file_change =
  file_header :: string
  oldName :: string
  newName :: string
  meta :: "string list"
  hunks :: "hunk list"

text \<open>
  The rows built by \<open>SplitHunk\<close>: \<open>{type, left, right}\<close> with \<open>type\<close> either
  \<open>'context'\<close> or \<open>'change'\<close>, and each side \<open>null\<close> or an object \<open>{num, content, type}\<close>.
  The sides of a context row are built without a \<open>type\<close> property, hence the option.
\<close>

datatype row_type = ContextRow | ChangeRow

record side =
  num :: nat
  side_content :: string
  side_type :: "line_type option"

record row =
  row_type :: row_type
  left :: "side option"
  right :: "side option"

section \<open>The parser \<open>parseDiff\<close>\<close>

definition startsWith :: "string \<Rightarrow> string \<Rightarrow> bool" where
  "startsWith s p = (take (length p) s = p)"

definition substring :: "string \<Rightarrow> nat \<Rightarrow> string" where
  "substring s n = drop n s"

text \<open>\<open>diffText.split('\n')\<close>: the result is never empty, and a text that ends in a
  newline has the empty string as its last element.\<close>

fun split_newline :: "string \<Rightarrow> string list" where
  "split_newline [] = ['''']"
| "split_newline (c # cs) =
     (if c = CHR 0x0A then [] # split_newline cs
      else (case split_newline cs of
              [] \<Rightarrow> [c # []]
            | l # ls \<Rightarrow> (c # l) # ls))"

subsection \<open>The hunk header pattern\<close>

text \<open>
  \<open>line.match(/@@ -(\d+)(?:,(\d+))? \+(\d+)(?:,(\d+))? @@/)\<close>. The pattern is not
  anchored, so the match is looked for at every offset of the line, leftmost first.
  At one offset the match is deterministic: a run of digits is always followed in the
  pattern by a character that is not a digit, so the greedy run never gives back.
  Only groups 1 and 3 are read.
\<close>

definition is_digit :: "char \<Rightarrow> bool" where
  "is_digit c = (c \<in> set ''0123456789'')"

definition digit_val :: "char \<Rightarrow> nat" where
  "digit_val c = of_char c - 48"

definition parseInt :: "string \<Rightarrow> nat" where
  "parseInt ds = foldl (\<lambda>n c. 10 * n + digit_val c) 0 ds"

definition optional_count :: "string \<Rightarrow> string" where
  "optional_count s =
     (case s of
        [] \<Rightarrow> s
      | c # t \<Rightarrow>
          (if c = CHR '','' \<and> takeWhile is_digit t \<noteq> [] then dropWhile is_digit t else s))"

definition match_here :: "string \<Rightarrow> (string \<times> string) option" where
  "match_here s =
     (if \<not> startsWith s ''@@ -'' then None
      else
        let s1 = drop 4 s; g1 = takeWhile is_digit s1 in
        if g1 = [] then None
        else
          let s2 = optional_count (dropWhile is_digit s1) in
          if \<not> startsWith s2 '' +'' then None
          else
            let s3 = drop 2 s2; g3 = takeWhile is_digit s3 in
            if g3 = [] then None
            else
              let s4 = optional_count (dropWhile is_digit s3) in
              if startsWith s4 '' @@'' then Some (g1, g3) else None)"

fun header_match :: "string \<Rightarrow> (string \<times> string) option" where
  "header_match [] = match_here []"
| "header_match (c # cs) =
     (case match_here (c # cs) of
        Some m \<Rightarrow> Some m
      | None \<Rightarrow> header_match cs)"

subsection \<open>The state machine\<close>

record parse_state =
  files :: "file_change list"
  currentFile :: "file_change option"
  currentHunk :: "hunk option"

definition push_hunk :: "hunk option \<Rightarrow> file_change \<Rightarrow> file_change" where
  "push_hunk ch f = (case ch of None \<Rightarrow> f | Some h \<Rightarrow> f\<lparr>hunks := hunks f @ [h]\<rparr>)"

definition classify :: "string \<Rightarrow> line_type" where
  "classify line =
     (if startsWith line ''+'' then Add
      else if startsWith line ''-'' then Delete
      else if startsWith line [CHR 0x5C] then NoNewline
      else Context)"

definition parse_line :: "parse_state \<Rightarrow> string \<Rightarrow> parse_state" where
  "parse_line st line =
     (if startsWith line ''diff --git'' then
        \<lparr>files = (case currentFile st of
                    None \<Rightarrow> files st
                  | Some f \<Rightarrow> files st @ [push_hunk (currentHunk st) f]),
         currentFile = Some \<lparr>file_header = line, oldName = [], newName = [],
                              meta = [], hunks = []\<rparr>,
         currentHunk = None\<rparr>
      else if startsWith line ''--- a/'' then
        (case currentFile st of
           None \<Rightarrow> st
         | Some f \<Rightarrow> st\<lparr>currentFile := Some (f\<lparr>oldName := substring line 6\<rparr>)\<rparr>)
      else if startsWith line ''+++ b/'' then
        (case currentFile st of
           None \<Rightarrow> st
         | Some f \<Rightarrow> st\<lparr>currentFile := Some (f\<lparr>newName := substring line 6\<rparr>)\<rparr>)
      else if startsWith line ''@@ '' then
        (case currentFile st of
           None \<Rightarrow> st
         | Some f \<Rightarrow>
             let m = header_match line;
                 os = (case m of None \<Rightarrow> 0 | Some (g1, g3) \<Rightarrow> parseInt g1);
                 ns = (case m of None \<Rightarrow> 0 | Some (g1, g3) \<Rightarrow> parseInt g3)
             in st\<lparr>currentFile := Some (push_hunk (currentHunk st) f),
                   currentHunk := Some \<lparr>header = line, lines = [],
                                         oldStart = os, newStart = ns\<rparr>\<rparr>)
      else
        (case (currentFile st, currentHunk st) of
           (Some f, Some h) \<Rightarrow>
             st\<lparr>currentHunk :=
                  Some (h\<lparr>lines := lines h @ [\<lparr>content = line, type = classify line\<rparr>]\<rparr>)\<rparr>
         | (Some f, None) \<Rightarrow> st\<lparr>currentFile := Some (f\<lparr>meta := meta f @ [line]\<rparr>)\<rparr>
         | (None, _) \<Rightarrow> st))"

fun parse_loop :: "parse_state \<Rightarrow> string list \<Rightarrow> parse_state" where
  "parse_loop st [] = st"
| "parse_loop st (line # rest) = parse_loop (parse_line st line) rest"

definition parse_finish :: "parse_state \<Rightarrow> file_change list" where
  "parse_finish st =
     (case currentFile st of
        None \<Rightarrow> files st
      | Some f \<Rightarrow> files st @ [push_hunk (currentHunk st) f])"

definition parse_init :: parse_state where
  "parse_init = \<lparr>files = [], currentFile = None, currentHunk = None\<rparr>"

text \<open>The argument is \<open>None\<close> for \<open>null\<close> or \<open>undefined\<close>; the guard \<open>!diffText\<close> also
  catches the empty string.\<close>

definition parseDiff :: "string option \<Rightarrow> file_change list" where
  "parseDiff diffText =
     (case diffText of
        None \<Rightarrow> []
      | Some t \<Rightarrow>
          if t = [] then []
          else parse_finish (parse_loop parse_init (split_newline t)))"

section \<open>The split view \<open>SplitHunk\<close>\<close>

text \<open>
  The component owns the local variables \<open>rows\<close>, \<open>oldLineCounter\<close>, \<open>newLineCounter\<close>
  and \<open>i\<close>, and reads its property \<open>hunk\<close>. The state of the \<open>while\<close> loop carries all
  five, so that what the loop does to each of them is a statement about the model. Every
  object the loop stores into \<open>rows\<close> is built by an object literal of the loop body, so
  the assignment \<open>rows[j].right = ...\<close> reaches no object of the hunk.
\<close>

record split_state =
  the_hunk :: hunk
  rows :: "row list"
  oldLineCounter :: nat
  newLineCounter :: nat
  line_index :: nat

text \<open>
  The backward scan \<open>for (let j = rows.length - 1; j >= 0; j--)\<close>. The numeric argument
  is \<open>j + 1\<close>: \<open>0\<close> means the scan has run off the front. The result is \<open>None\<close> when
  \<open>merged\<close> stays \<open>false\<close>, and the updated array otherwise.
\<close>

definition open_slot :: "row \<Rightarrow> bool" where
  "open_slot r =
     ((case left r of None \<Rightarrow> False | Some l \<Rightarrow> side_type l = Some Delete)
      \<and> right r = None)"

fun merge_scan :: "row list \<Rightarrow> nat \<Rightarrow> side \<Rightarrow> row list option" where
  "merge_scan rs 0 a = None"
| "merge_scan rs (Suc j) a =
     (if row_type (rs ! j) = ContextRow then None
      else if open_slot (rs ! j) then Some (rs[j := (rs ! j)\<lparr>right := Some a\<rparr>])
      else merge_scan rs j a)"

definition split_line :: "diff_line \<Rightarrow> split_state \<Rightarrow> split_state" where
  "split_line line s =
     (case type line of
        Context \<Rightarrow>
          s\<lparr>rows := rows s @
                [\<lparr>row_type = ContextRow,
                  left = Some \<lparr>num = oldLineCounter s, side_content = content line,
                               side_type = None\<rparr>,
                  right = Some \<lparr>num = newLineCounter s, side_content = content line,
                                side_type = None\<rparr>\<rparr>],
            oldLineCounter := oldLineCounter s + 1,
            newLineCounter := newLineCounter s + 1,
            line_index := line_index s + 1\<rparr>
      | Delete \<Rightarrow>
          s\<lparr>rows := rows s @
                [\<lparr>row_type = ChangeRow,
                  left = Some \<lparr>num = oldLineCounter s, side_content = content line,
                               side_type = Some Delete\<rparr>,
                  right = None\<rparr>],
            oldLineCounter := oldLineCounter s + 1,
            line_index := line_index s + 1\<rparr>
      | Add \<Rightarrow>
          (let a = \<lparr>num = newLineCounter s, side_content = content line,
                    side_type = Some Add\<rparr>
           in s\<lparr>rows := (case merge_scan (rows s) (length (rows s)) a of
                           Some rs \<Rightarrow> rs
                         | None \<Rightarrow> rows s @ [\<lparr>row_type = ChangeRow, left = None,
                                                right = Some a\<rparr>]),
                 newLineCounter := newLineCounter s + 1,
                 line_index := line_index s + 1\<rparr>)
      | NoNewline \<Rightarrow> s\<lparr>line_index := line_index s + 1\<rparr>)"

definition split_step :: "split_state \<Rightarrow> split_state" where
  "split_step s = split_line (lines (the_hunk s) ! line_index s) s"

function split_loop :: "split_state \<Rightarrow> split_state" where
  "split_loop s =
     (if line_index s < length (lines (the_hunk s)) then split_loop (split_step s) else s)"
  by pat_completeness auto
termination
  by (relation "measure (\<lambda>s. length (lines (the_hunk s)) - line_index s)")
     (auto simp: split_step_def split_line_def Let_def split: line_type.split)

declare split_loop.simps [simp del]

definition split_init :: "hunk \<Rightarrow> split_state" where
  "split_init h =
     \<lparr>the_hunk = h, rows = [], oldLineCounter = oldStart h, newLineCounter = newStart h,
      line_index = 0\<rparr>"

definition SplitHunk :: "hunk \<Rightarrow> row list" where
  "SplitHunk h = rows (split_loop (split_init h))"

section \<open>Reference functions for stating the properties\<close>

text \<open>
  These functions are not part of the program. They describe, from the lines of a hunk
  alone, which sides the rows are expected to carry: \<open>delete_sides\<close> and \<open>add_sides\<close>
  number the deletions and the additions the way two independent counters would, and
  \<open>left_deletes\<close> and \<open>right_adds\<close> read the filled slots off a row sequence.
\<close>

definition advances_old :: "diff_line \<Rightarrow> bool" where
  "advances_old l = (type l = Context \<or> type l = Delete)"

definition advances_new :: "diff_line \<Rightarrow> bool" where
  "advances_new l = (type l = Context \<or> type l = Add)"

fun delete_sides :: "nat \<Rightarrow> diff_line list \<Rightarrow> side list" where
  "delete_sides n [] = []"
| "delete_sides n (l # ls) =
     (if type l = Delete then
        \<lparr>num = n, side_content = content l, side_type = Some Delete\<rparr> # delete_sides (Suc n) ls
      else if type l = Context then delete_sides (Suc n) ls
      else delete_sides n ls)"

fun add_sides :: "nat \<Rightarrow> diff_line list \<Rightarrow> side list" where
  "add_sides n [] = []"
| "add_sides n (l # ls) =
     (if type l = Add then
        \<lparr>num = n, side_content = content l, side_type = Some Add\<rparr> # add_sides (Suc n) ls
      else if type l = Context then add_sides (Suc n) ls
      else add_sides n ls)"

fun filled :: "side option \<Rightarrow> line_type \<Rightarrow> side list" where
  "filled None t = []"
| "filled (Some x) t = (if side_type x = Some t then [x] else [])"

definition left_deletes :: "row list \<Rightarrow> side list" where
  "left_deletes rs = concat (map (\<lambda>r. filled (left r) Delete) rs)"

definition right_adds :: "row list \<Rightarrow> side list" where
  "right_adds rs = concat (map (\<lambda>r. filled (right r) Add) rs)"

text \<open>The invariant of a row, in the words of the data model: a context row has both
  sides, with the same content; a change row has at least one side.\<close>

definition row_invariant :: "row \<Rightarrow> bool" where
  "row_invariant r =
     (case row_type r of
        ContextRow \<Rightarrow>
          (case (left r, right r) of
             (Some l, Some r') \<Rightarrow> side_content l = side_content r'
           | _ \<Rightarrow> False)
      | ChangeRow \<Rightarrow> left r \<noteq> None \<or> right r \<noteq> None)"

text \<open>The path a file ends up with: the remainder of the last line of its block that
  starts with the prefix \<open>p\<close>, or \<open>d\<close> when the block has no such line.\<close>

definition last_path :: "string \<Rightarrow> string list \<Rightarrow> string \<Rightarrow> string" where
  "last_path p body d =
     (if filter (\<lambda>l. startsWith l p) body = [] then d
      else substring (last (filter (\<lambda>l. startsWith l p) body)) 6)"

text \<open>The number of files the parser has started so far.\<close>

definition file_count :: "parse_state \<Rightarrow> nat" where
  "file_count st = length (files st) + (case currentFile st of None \<Rightarrow> 0 | Some f \<Rightarrow> 1)"

section \<open>Properties of the split view\<close>

subsection \<open>The loop as a fold over the lines\<close>

lemma split_line_hunk: "the_hunk (split_line l s) = the_hunk s"
  by (simp add: split_line_def Let_def split: line_type.split)

lemma split_line_index: "line_index (split_line l s) = Suc (line_index s)"
  by (simp add: split_line_def Let_def split: line_type.split)

lemma split_loop_fold:
  "line_index s \<le> length (lines (the_hunk s)) \<Longrightarrow>
   split_loop s = fold split_line (drop (line_index s) (lines (the_hunk s))) s"
proof (induction s rule: split_loop.induct)
  case (1 s)
  show ?case
  proof (cases "line_index s < length (lines (the_hunk s))")
    case True
    have d: "drop (line_index s) (lines (the_hunk s)) =
             lines (the_hunk s) ! line_index s # drop (Suc (line_index s)) (lines (the_hunk s))"
      using True by (simp add: Cons_nth_drop_Suc)
    have "split_loop s = split_loop (split_step s)"
      using True by (subst split_loop.simps) simp
    also have "\<dots> = fold split_line (drop (line_index (split_step s)) (lines (the_hunk (split_step s)))) (split_step s)"
      using True "1.IH" by (simp add: split_step_def split_line_hunk split_line_index)
    also have "\<dots> = fold split_line (drop (line_index s) (lines (the_hunk s))) s"
      by (simp add: d split_step_def split_line_hunk split_line_index)
    finally show ?thesis .
  next
    case False
    with "1.prems" show ?thesis by (subst split_loop.simps) simp
  qed
qed

lemma SplitHunk_fold: "SplitHunk h = rows (fold split_line (lines h) (split_init h))"
  by (simp add: SplitHunk_def split_loop_fold split_init_def)

subsection \<open>What the backward scan returns\<close>

lemma merge_scan_hit:
  "p < n \<Longrightarrow> open_slot (rs ! p) \<Longrightarrow> row_type (rs ! p) \<noteq> ContextRow \<Longrightarrow>
   (\<forall>k. p < k \<and> k < n \<longrightarrow> \<not> open_slot (rs ! k) \<and> row_type (rs ! k) \<noteq> ContextRow) \<Longrightarrow>
   merge_scan rs n a = Some (rs[p := (rs ! p)\<lparr>right := Some a\<rparr>])"
proof (induction n)
  case 0
  then show ?case by simp
next
  case (Suc n)
  show ?case
  proof (cases "p = n")
    case True
    with Suc.prems show ?thesis by simp
  next
    case False
    with Suc.prems have "p < n" by simp
    moreover have "\<not> open_slot (rs ! n) \<and> row_type (rs ! n) \<noteq> ContextRow"
      using Suc.prems \<open>p < n\<close> by simp
    ultimately show ?thesis using Suc by simp
  qed
qed

lemma merge_scan_Some:
  "merge_scan rs n a = Some rs' \<Longrightarrow>
   \<exists>j<n. open_slot (rs ! j) \<and> row_type (rs ! j) \<noteq> ContextRow \<and>
         rs' = rs[j := (rs ! j)\<lparr>right := Some a\<rparr>] \<and>
         (\<forall>k. j < k \<and> k < n \<longrightarrow> \<not> open_slot (rs ! k) \<and> row_type (rs ! k) \<noteq> ContextRow)"
proof (induction n)
  case 0
  then show ?case by simp
next
  case (Suc n)
  show ?case
  proof (cases "row_type (rs ! n) = ContextRow")
    case True
    with Suc.prems show ?thesis by simp
  next
    case nc: False
    show ?thesis
    proof (cases "open_slot (rs ! n)")
      case True
      with nc Suc.prems have "rs' = rs[n := (rs ! n)\<lparr>right := Some a\<rparr>]" by simp
      with True nc show ?thesis by (intro exI[of _ n]) auto
    next
      case False
      with nc Suc.prems have "merge_scan rs n a = Some rs'" by simp
      from Suc.IH[OF this] obtain j where j: "j < n" "open_slot (rs ! j)"
        "row_type (rs ! j) \<noteq> ContextRow" "rs' = rs[j := (rs ! j)\<lparr>right := Some a\<rparr>]"
        "\<forall>k. j < k \<and> k < n \<longrightarrow> \<not> open_slot (rs ! k) \<and> row_type (rs ! k) \<noteq> ContextRow"
        by blast
      have "\<forall>k. j < k \<and> k < Suc n \<longrightarrow> \<not> open_slot (rs ! k) \<and> row_type (rs ! k) \<noteq> ContextRow"
        using j(5) False nc by (auto simp: less_Suc_eq)
      with j show ?thesis by (intro exI[of _ j]) auto
    qed
  qed
qed

lemma merge_scan_None:
  "merge_scan rs n a = None \<Longrightarrow>
   (\<forall>k<n. \<not> open_slot (rs ! k) \<and> row_type (rs ! k) \<noteq> ContextRow) \<or>
   (\<exists>j<n. row_type (rs ! j) = ContextRow \<and>
       (\<forall>k. j < k \<and> k < n \<longrightarrow> \<not> open_slot (rs ! k) \<and> row_type (rs ! k) \<noteq> ContextRow))"
proof (induction n)
  case 0
  then show ?case by simp
next
  case (Suc n)
  show ?case
  proof (cases "row_type (rs ! n) = ContextRow")
    case True
    then show ?thesis by (intro disjI2 exI[of _ n]) auto
  next
    case nc: False
    with Suc.prems have no: "\<not> open_slot (rs ! n)" and m: "merge_scan rs n a = None"
      by (auto split: if_splits)
    from Suc.IH[OF m] show ?thesis
    proof
      assume "\<forall>k<n. \<not> open_slot (rs ! k) \<and> row_type (rs ! k) \<noteq> ContextRow"
      with no nc show ?thesis by (auto simp: less_Suc_eq)
    next
      assume "\<exists>j<n. row_type (rs ! j) = ContextRow \<and>
       (\<forall>k. j < k \<and> k < n \<longrightarrow> \<not> open_slot (rs ! k) \<and> row_type (rs ! k) \<noteq> ContextRow)"
      then obtain j where "j < n" "row_type (rs ! j) = ContextRow"
        "\<forall>k. j < k \<and> k < n \<longrightarrow> \<not> open_slot (rs ! k) \<and> row_type (rs ! k) \<noteq> ContextRow" by blast
      with no nc show ?thesis by (intro disjI2 exI[of _ j]) (auto simp: less_Suc_eq)
    qed
  qed
qed

subsection \<open>A block of deletions followed by a block of additions\<close>

lemma split_line_Delete:
  "type d = Delete \<Longrightarrow>
   split_line d s =
     s\<lparr>rows := rows s @
           [\<lparr>row_type = ChangeRow,
             left = Some \<lparr>num = oldLineCounter s, side_content = content d,
                          side_type = Some Delete\<rparr>,
             right = None\<rparr>],
       oldLineCounter := oldLineCounter s + 1,
       line_index := line_index s + 1\<rparr>"
  by (simp add: split_line_def)

lemma split_line_Add:
  "type l = Add \<Longrightarrow>
   split_line l s =
     s\<lparr>rows := (case merge_scan (rows s) (length (rows s))
                       \<lparr>num = newLineCounter s, side_content = content l,
                        side_type = Some Add\<rparr> of
                  Some rs \<Rightarrow> rs
                | None \<Rightarrow> rows s @
                    [\<lparr>row_type = ChangeRow, left = None,
                      right = Some \<lparr>num = newLineCounter s, side_content = content l,
                                    side_type = Some Add\<rparr>\<rparr>]),
       newLineCounter := newLineCounter s + 1,
       line_index := line_index s + 1\<rparr>"
  by (simp add: split_line_def Let_def)

lemma fold_deletes:
  "\<forall>d\<in>set ds. type d = Delete \<Longrightarrow>
   rows (fold split_line ds s) =
     rows s @
       map (\<lambda>i. \<lparr>row_type = ChangeRow,
                 left = Some \<lparr>num = oldLineCounter s + i, side_content = content (ds ! i),
                              side_type = Some Delete\<rparr>,
                 right = None\<rparr>) [0..<length ds] \<and>
   oldLineCounter (fold split_line ds s) = oldLineCounter s + length ds \<and>
   newLineCounter (fold split_line ds s) = newLineCounter s"
proof (induction ds rule: rev_induct)
  case Nil
  show ?case by simp
next
  case (snoc d ds)
  then have IH: "rows (fold split_line ds s) =
     rows s @
       map (\<lambda>i. \<lparr>row_type = ChangeRow,
                 left = Some \<lparr>num = oldLineCounter s + i, side_content = content (ds ! i),
                              side_type = Some Delete\<rparr>,
                 right = None\<rparr>) [0..<length ds]"
    "oldLineCounter (fold split_line ds s) = oldLineCounter s + length ds"
    "newLineCounter (fold split_line ds s) = newLineCounter s"
    and d: "type d = Delete"
    by simp_all
  show ?case
    by (simp add: IH split_line_Delete[OF d] nth_append cong: map_cong)
qed

lemma fold_adds:
  assumes adds: "\<forall>a\<in>set as. type a = Add"
    and len: "length as \<le> length (rows s)"
    and opn: "\<forall>i<length (rows s). open_slot (rows s ! i) \<and> row_type (rows s ! i) \<noteq> ContextRow"
  shows "rows (fold split_line as s) =
      map (\<lambda>i. if i < length (rows s) - length as then rows s ! i
                else (rows s ! i)\<lparr>right :=
                       Some \<lparr>num = newLineCounter s + (length (rows s) - 1 - i),
                             side_content = content (as ! (length (rows s) - 1 - i)),
                             side_type = Some Add\<rparr>\<rparr>) [0..<length (rows s)] \<and>
     newLineCounter (fold split_line as s) = newLineCounter s + length as"
  using adds len
proof (induction as rule: rev_induct)
  case Nil
  have "rows s = map (\<lambda>i. if i < length (rows s) - length ([]::diff_line list) then rows s ! i
                else (rows s ! i)\<lparr>right :=
                       Some \<lparr>num = newLineCounter s + (length (rows s) - 1 - i),
                             side_content = content ([] ! (length (rows s) - 1 - i)),
                             side_type = Some Add\<rparr>\<rparr>) [0..<length (rows s)]"
    by (rule nth_equalityI) simp_all
  then show ?case by simp
next
  case (snoc a as)
  let ?m = "length (rows s)"
  let ?n = "length as"
  define R where "R = (\<lambda>bs::diff_line list. map (\<lambda>i. if i < ?m - length bs then rows s ! i
                         else (rows s ! i)\<lparr>right :=
                                Some \<lparr>num = newLineCounter s + (?m - 1 - i),
                                      side_content = content (bs ! (?m - 1 - i)),
                                      side_type = Some Add\<rparr>\<rparr>) [0..<?m])"
  define A where "A = \<lparr>num = newLineCounter s + ?n, side_content = content a, side_type = Some Add\<rparr>"
  from snoc.prems have a: "type a = Add" and n: "?n < ?m" by simp_all
  from snoc have IH: "rows (fold split_line as s) = R as"
    "newLineCounter (fold split_line as s) = newLineCounter s + ?n" by (simp_all add: R_def)
  define p where "p = ?m - ?n - 1"
  have p: "p < ?m" "p < ?m - ?n" "\<And>k. p < k \<Longrightarrow> \<not> k < ?m - ?n"
    "\<And>k. k < p \<Longrightarrow> k < ?m - Suc ?n" "\<not> p < ?m - Suc ?n" "?m - 1 - p = ?n"
    using n by (simp_all add: p_def)
  have lenR: "\<And>bs. length (R bs) = ?m" by (simp add: R_def)
  have Rn: "\<And>bs i. i < ?m \<Longrightarrow> R bs ! i =
       (if i < ?m - length bs then rows s ! i
        else (rows s ! i)\<lparr>right :=
               Some \<lparr>num = newLineCounter s + (?m - 1 - i),
                     side_content = content (bs ! (?m - 1 - i)),
                     side_type = Some Add\<rparr>\<rparr>)"
    by (simp add: R_def)
  have Rp: "R as ! p = rows s ! p" using p(1,2) by (simp add: Rn)
  have Rk: "\<And>k. p < k \<Longrightarrow> k < ?m \<Longrightarrow> R as ! k = (rows s ! k)\<lparr>right :=
               Some \<lparr>num = newLineCounter s + (?m - 1 - k),
                     side_content = content (as ! (?m - 1 - k)),
                     side_type = Some Add\<rparr>\<rparr>"
    using p(3) by (simp add: Rn)
  have hit: "merge_scan (R as) ?m A = Some ((R as)[p := (R as ! p)\<lparr>right := Some A\<rparr>])"
  proof (rule merge_scan_hit)
    show "p < ?m" by (rule p)
    show "open_slot (R as ! p)" unfolding Rp using p(1) opn by blast
    show "row_type (R as ! p) \<noteq> ContextRow" unfolding Rp using p(1) opn by blast
    show "\<forall>k. p < k \<and> k < ?m \<longrightarrow> \<not> open_slot (R as ! k) \<and> row_type (R as ! k) \<noteq> ContextRow"
      using opn by (auto simp: Rk open_slot_def)
  qed
  have eq: "(R as)[p := (R as ! p)\<lparr>right := Some A\<rparr>] = R (as @ [a])"
  proof (rule nth_equalityI)
    show "length ((R as)[p := (R as ! p)\<lparr>right := Some A\<rparr>]) = length (R (as @ [a]))"
      by (simp add: lenR)
  next
    fix i assume "i < length ((R as)[p := (R as ! p)\<lparr>right := Some A\<rparr>])"
    then have i: "i < ?m" by (simp add: lenR)
    consider "i < p" | "i = p" | "p < i" by linarith
    then show "(R as)[p := (R as ! p)\<lparr>right := Some A\<rparr>] ! i = R (as @ [a]) ! i"
    proof cases
      case 1
      then have "i < ?m - ?n" "i < ?m - Suc ?n" "i \<noteq> p" using p(2,4) by simp_all
      then show ?thesis using i by (simp add: lenR Rn)
    next
      case 2
      show ?thesis using 2 p by (simp add: lenR Rn A_def)
    next
      case 3
      then have "?m - 1 - i < ?n" "\<not> i < ?m - ?n" "\<not> i < ?m - Suc ?n" "i \<noteq> p"
        using i n p(3)[of i] by simp_all
      then show ?thesis using i by (simp add: lenR Rn nth_append)
    qed
  qed
  have "rows (fold split_line (as @ [a]) s) = (R as)[p := (R as ! p)\<lparr>right := Some A\<rparr>]"
    using hit by (simp add: split_line_Add[OF a] IH lenR A_def)
  with eq have "rows (fold split_line (as @ [a]) s) = R (as @ [a])" by simp
  moreover have "newLineCounter (fold split_line (as @ [a]) s) = newLineCounter s + length (as @ [a])"
    by (simp add: split_line_Add[OF a] IH)
  ultimately show ?case by (simp only: R_def)
qed

lemma SplitHunk_deletes_adds:
  assumes ls: "lines h = ds @ as"
    and dels: "\<forall>d\<in>set ds. type d = Delete"
    and adds: "\<forall>a\<in>set as. type a = Add"
    and len: "length as \<le> length ds"
  shows "SplitHunk h =
     map (\<lambda>i. \<lparr>row_type = ChangeRow,
               left = Some \<lparr>num = oldStart h + i, side_content = content (ds ! i),
                            side_type = Some Delete\<rparr>,
               right = (if i < length ds - length as then None
                        else Some \<lparr>num = newStart h + (length ds - 1 - i),
                                   side_content = content (as ! (length ds - 1 - i)),
                                   side_type = Some Add\<rparr>)\<rparr>) [0..<length ds]"
proof -
  define s where "s = fold split_line ds (split_init h)"
  have D: "rows s = map (\<lambda>i. \<lparr>row_type = ChangeRow,
                 left = Some \<lparr>num = oldStart h + i, side_content = content (ds ! i),
                              side_type = Some Delete\<rparr>,
                 right = None\<rparr>) [0..<length ds]"
    and N: "newLineCounter s = newStart h"
    using fold_deletes[OF dels, of "split_init h"] by (simp_all add: s_def split_init_def)
  have m: "length (rows s) = length ds" by (simp add: D)
  have opn: "\<forall>i<length (rows s). open_slot (rows s ! i) \<and> row_type (rows s ! i) \<noteq> ContextRow"
    by (simp add: D open_slot_def)
  have "SplitHunk h = rows (fold split_line as s)"
    by (simp add: SplitHunk_fold ls s_def)
  also have "\<dots> = map (\<lambda>i. if i < length (rows s) - length as then rows s ! i
                else (rows s ! i)\<lparr>right :=
                       Some \<lparr>num = newLineCounter s + (length (rows s) - 1 - i),
                             side_content = content (as ! (length (rows s) - 1 - i)),
                             side_type = Some Add\<rparr>\<rparr>) [0..<length (rows s)]"
    using fold_adds[OF adds _ opn] len m by simp
  also have "\<dots> = map (\<lambda>i. \<lparr>row_type = ChangeRow,
               left = Some \<lparr>num = oldStart h + i, side_content = content (ds ! i),
                            side_type = Some Delete\<rparr>,
               right = (if i < length ds - length as then None
                        else Some \<lparr>num = newStart h + (length ds - 1 - i),
                                   side_content = content (as ! (length ds - 1 - i)),
                                   side_type = Some Add\<rparr>)\<rparr>) [0..<length ds]"
    unfolding m N by (rule nth_equalityI) (simp_all add: D)
  finally show ?thesis .
qed

lemma SplitHunk_deletes_adds_nth:
  assumes "lines h = ds @ as"
    and "\<forall>d\<in>set ds. type d = Delete"
    and "\<forall>a\<in>set as. type a = Add"
    and "length as \<le> length ds"
  shows "length (SplitHunk h) = length ds"
    and "i < length ds \<Longrightarrow> SplitHunk h ! i =
      \<lparr>row_type = ChangeRow,
       left = Some \<lparr>num = oldStart h + i, side_content = content (ds ! i),
                    side_type = Some Delete\<rparr>,
       right = (if i < length ds - length as then None
                else Some \<lparr>num = newStart h + (length ds - 1 - i),
                           side_content = content (as ! (length ds - 1 - i)),
                           side_type = Some Add\<rparr>)\<rparr>"
  by (simp_all add: SplitHunk_deletes_adds[OF assms])

text \<open>
  Claim C4. A hunk whose lines are \<open>k\<close> deletions followed by \<open>k\<close> additions, and nothing
  else, gives exactly \<open>k\<close> rows. Each is a change row with a deletion on the left and an
  addition on the right, so no row has an empty side. The scan fills from the bottom of the
  block: row \<open>i\<close> holds deletion \<open>i\<close> and addition \<open>k - 1 - i\<close>.
\<close>

theorem equal_blocks_fully_paired:
  assumes "lines h = ds @ as"
    and "\<forall>d\<in>set ds. type d = Delete"
    and "\<forall>a\<in>set as. type a = Add"
    and "length ds = k" and "length as = k"
  shows "length (SplitHunk h) = k \<and>
     (\<forall>i<k. SplitHunk h ! i =
        \<lparr>row_type = ChangeRow,
         left = Some \<lparr>num = oldStart h + i, side_content = content (ds ! i),
                      side_type = Some Delete\<rparr>,
         right = Some \<lparr>num = newStart h + (k - 1 - i),
                       side_content = content (as ! (k - 1 - i)),
                       side_type = Some Add\<rparr>\<rparr>)"
  using SplitHunk_deletes_adds_nth[OF assms(1,2,3)] assms(4,5) by simp

theorem equal_blocks_fully_paired_example:
  "length (SplitHunk \<lparr>header = ''@@ -1,2 +1,2 @@'',
       lines = [\<lparr>content = ''-a'', type = Delete\<rparr>, \<lparr>content = ''-b'', type = Delete\<rparr>,
                \<lparr>content = ''+c'', type = Add\<rparr>, \<lparr>content = ''+d'', type = Add\<rparr>],
       oldStart = 1, newStart = 1\<rparr>) = 2 \<and>
   SplitHunk \<lparr>header = ''@@ -1,2 +1,2 @@'',
       lines = [\<lparr>content = ''-a'', type = Delete\<rparr>, \<lparr>content = ''-b'', type = Delete\<rparr>,
                \<lparr>content = ''+c'', type = Add\<rparr>, \<lparr>content = ''+d'', type = Add\<rparr>],
       oldStart = 1, newStart = 1\<rparr> ! 0 =
     \<lparr>row_type = ChangeRow,
      left = Some \<lparr>num = 1, side_content = ''-a'', side_type = Some Delete\<rparr>,
      right = Some \<lparr>num = 2, side_content = ''+d'', side_type = Some Add\<rparr>\<rparr> \<and>
   SplitHunk \<lparr>header = ''@@ -1,2 +1,2 @@'',
       lines = [\<lparr>content = ''-a'', type = Delete\<rparr>, \<lparr>content = ''-b'', type = Delete\<rparr>,
                \<lparr>content = ''+c'', type = Add\<rparr>, \<lparr>content = ''+d'', type = Add\<rparr>],
       oldStart = 1, newStart = 1\<rparr> ! 1 =
     \<lparr>row_type = ChangeRow,
      left = Some \<lparr>num = 2, side_content = ''-b'', side_type = Some Delete\<rparr>,
      right = Some \<lparr>num = 1, side_content = ''+c'', side_type = Some Add\<rparr>\<rparr>"
proof -
  let ?ds = "[\<lparr>content = ''-a'', type = Delete\<rparr>, \<lparr>content = ''-b'', type = Delete\<rparr>]"
  let ?as = "[\<lparr>content = ''+c'', type = Add\<rparr>, \<lparr>content = ''+d'', type = Add\<rparr>]"
  let ?h = "\<lparr>header = ''@@ -1,2 +1,2 @@'',
       lines = [\<lparr>content = ''-a'', type = Delete\<rparr>, \<lparr>content = ''-b'', type = Delete\<rparr>,
                \<lparr>content = ''+c'', type = Add\<rparr>, \<lparr>content = ''+d'', type = Add\<rparr>],
       oldStart = 1, newStart = 1\<rparr>"
  have 1: "lines ?h = ?ds @ ?as" by simp
  have 2: "\<forall>d\<in>set ?ds. type d = Delete" by simp
  have 3: "\<forall>a\<in>set ?as. type a = Add" by simp
  have 4: "length ?ds = 2" and 5: "length ?as = 2" by simp_all
  note t = equal_blocks_fully_paired[OF 1 2 3 4 5]
  from t have "length (SplitHunk ?h) = 2" by (rule conjunct1)
  moreover from t have "SplitHunk ?h ! 0 =
     \<lparr>row_type = ChangeRow,
      left = Some \<lparr>num = 1, side_content = ''-a'', side_type = Some Delete\<rparr>,
      right = Some \<lparr>num = 2, side_content = ''+d'', side_type = Some Add\<rparr>\<rparr>"
    by simp
  moreover from t have "SplitHunk ?h ! 1 =
     \<lparr>row_type = ChangeRow,
      left = Some \<lparr>num = 2, side_content = ''-b'', side_type = Some Delete\<rparr>,
      right = Some \<lparr>num = 1, side_content = ''+c'', side_type = Some Add\<rparr>\<rparr>"
    by simp
  ultimately show ?thesis by (intro conjI)
qed

text \<open>
  Claim C1, as amended. A hunk whose lines are \<open>m\<close> deletions followed by \<open>n < m\<close>
  additions gives exactly \<open>m\<close> change rows, each with its deletion on the left. The
  additions fill the block from the bottom: the first \<open>m - n\<close> rows keep an empty right
  side and the last \<open>n\<close> rows are paired, row \<open>i\<close> with addition \<open>m - 1 - i\<close>.
\<close>

theorem longer_delete_block_pairs_from_bottom:
  assumes "lines h = ds @ as"
    and "\<forall>d\<in>set ds. type d = Delete"
    and "\<forall>a\<in>set as. type a = Add"
    and "length ds = m" and "length as = n" and "n < m"
  shows "length (SplitHunk h) = m \<and>
     (\<forall>i<m. row_type (SplitHunk h ! i) = ChangeRow \<and>
             left (SplitHunk h ! i) =
               Some \<lparr>num = oldStart h + i, side_content = content (ds ! i),
                     side_type = Some Delete\<rparr>) \<and>
     (\<forall>i<m - n. right (SplitHunk h ! i) = None) \<and>
     (\<forall>i. m - n \<le> i \<and> i < m \<longrightarrow>
         right (SplitHunk h ! i) =
           Some \<lparr>num = newStart h + (m - 1 - i), side_content = content (as ! (m - 1 - i)),
                 side_type = Some Add\<rparr>)"
  using SplitHunk_deletes_adds_nth[OF assms(1,2,3)] assms(4,5,6) by simp

theorem longer_delete_block_example:
  "right (SplitHunk \<lparr>header = ''@@ -5,3 +7 @@'',
       lines = [\<lparr>content = ''-a'', type = Delete\<rparr>, \<lparr>content = ''-b'', type = Delete\<rparr>,
                \<lparr>content = ''-c'', type = Delete\<rparr>, \<lparr>content = ''+d'', type = Add\<rparr>],
       oldStart = 5, newStart = 7\<rparr> ! 0) = None \<and>
   right (SplitHunk \<lparr>header = ''@@ -5,3 +7 @@'',
       lines = [\<lparr>content = ''-a'', type = Delete\<rparr>, \<lparr>content = ''-b'', type = Delete\<rparr>,
                \<lparr>content = ''-c'', type = Delete\<rparr>, \<lparr>content = ''+d'', type = Add\<rparr>],
       oldStart = 5, newStart = 7\<rparr> ! 1) = None \<and>
   right (SplitHunk \<lparr>header = ''@@ -5,3 +7 @@'',
       lines = [\<lparr>content = ''-a'', type = Delete\<rparr>, \<lparr>content = ''-b'', type = Delete\<rparr>,
                \<lparr>content = ''-c'', type = Delete\<rparr>, \<lparr>content = ''+d'', type = Add\<rparr>],
       oldStart = 5, newStart = 7\<rparr> ! 2) =
     Some \<lparr>num = 7, side_content = ''+d'', side_type = Some Add\<rparr>"
proof -
  let ?ds = "[\<lparr>content = ''-a'', type = Delete\<rparr>, \<lparr>content = ''-b'', type = Delete\<rparr>,
              \<lparr>content = ''-c'', type = Delete\<rparr>]"
  let ?as = "[\<lparr>content = ''+d'', type = Add\<rparr>]"
  let ?h = "\<lparr>header = ''@@ -5,3 +7 @@'',
       lines = [\<lparr>content = ''-a'', type = Delete\<rparr>, \<lparr>content = ''-b'', type = Delete\<rparr>,
                \<lparr>content = ''-c'', type = Delete\<rparr>, \<lparr>content = ''+d'', type = Add\<rparr>],
       oldStart = 5, newStart = 7\<rparr>"
  have 1: "lines ?h = ?ds @ ?as" by simp
  have 2: "\<forall>d\<in>set ?ds. type d = Delete" by simp
  have 3: "\<forall>a\<in>set ?as. type a = Add" by simp
  have 4: "length ?ds = 3" and 5: "length ?as = 1" and 6: "(1::nat) < 3" by simp_all
  note t = longer_delete_block_pairs_from_bottom[OF 1 2 3 4 5 6]
  from t have a: "\<forall>i<3 - 1. right (SplitHunk ?h ! i) = None" by blast
  from t have b: "\<forall>i. 3 - 1 \<le> i \<and> i < 3 \<longrightarrow>
         right (SplitHunk ?h ! i) =
           Some \<lparr>num = newStart ?h + (3 - 1 - i), side_content = content (?as ! (3 - 1 - i)),
                 side_type = Some Add\<rparr>" by blast
  from a have "right (SplitHunk ?h ! 0) = None" "right (SplitHunk ?h ! 1) = None" by simp_all
  moreover from b have "right (SplitHunk ?h ! 2) =
     Some \<lparr>num = 7, side_content = ''+d'', side_type = Some Add\<rparr>" by simp
  ultimately show ?thesis by (intro conjI)
qed

text \<open>
  The claim as first written fails: with two deletions and one addition the first row is
  not paired. The addition lands in the second row.
\<close>

theorem first_rows_not_paired:
  "right (SplitHunk \<lparr>header = ''@@ -1,2 +1 @@'',
                 lines = [\<lparr>content = ''-a'', type = Delete\<rparr>,
                          \<lparr>content = ''-b'', type = Delete\<rparr>,
                          \<lparr>content = ''+c'', type = Add\<rparr>],
                 oldStart = 1, newStart = 1\<rparr> ! 0) = None \<and>
   right (SplitHunk \<lparr>header = ''@@ -1,2 +1 @@'',
                 lines = [\<lparr>content = ''-a'', type = Delete\<rparr>,
                          \<lparr>content = ''-b'', type = Delete\<rparr>,
                          \<lparr>content = ''+c'', type = Add\<rparr>],
                 oldStart = 1, newStart = 1\<rparr> ! 1) =
     Some \<lparr>num = 1, side_content = ''+c'', side_type = Some Add\<rparr>"
  by (simp add: SplitHunk_fold split_init_def split_line_def open_slot_def)

subsection \<open>The two counters\<close>

lemma split_line_counters:
  "oldLineCounter (split_line l s) = oldLineCounter s + (if advances_old l then 1 else 0)"
  "newLineCounter (split_line l s) = newLineCounter s + (if advances_new l then 1 else 0)"
  by (simp_all add: split_line_def advances_old_def advances_new_def Let_def split: line_type.split)

lemma fold_counters:
  "oldLineCounter (fold split_line ls s) = oldLineCounter s + length (filter advances_old ls)"
  "newLineCounter (fold split_line ls s) = newLineCounter s + length (filter advances_new ls)"
  by (induction ls arbitrary: s) (simp_all add: split_line_counters)

subsection \<open>One step on the rows\<close>

lemma split_line_rows_cases:
  "rows (split_line l s) =
     (case type l of
        Context \<Rightarrow> rows s @
           [\<lparr>row_type = ContextRow,
             left = Some \<lparr>num = oldLineCounter s, side_content = content l, side_type = None\<rparr>,
             right = Some \<lparr>num = newLineCounter s, side_content = content l, side_type = None\<rparr>\<rparr>]
      | Delete \<Rightarrow> rows s @
           [\<lparr>row_type = ChangeRow,
             left = Some \<lparr>num = oldLineCounter s, side_content = content l,
                          side_type = Some Delete\<rparr>,
             right = None\<rparr>]
      | Add \<Rightarrow>
          (case merge_scan (rows s) (length (rows s))
                  \<lparr>num = newLineCounter s, side_content = content l, side_type = Some Add\<rparr> of
             Some rs \<Rightarrow> rs
           | None \<Rightarrow> rows s @
               [\<lparr>row_type = ChangeRow, left = None,
                 right = Some \<lparr>num = newLineCounter s, side_content = content l,
                               side_type = Some Add\<rparr>\<rparr>])
      | NoNewline \<Rightarrow> rows s)"
  by (simp add: split_line_def Let_def split: line_type.split)

text \<open>Every step either appends rows or fills the nearest open slot.\<close>

lemma split_line_rows_shape:
  "(\<exists>new. rows (split_line l s) = rows s @ new) \<or>
   (\<exists>j a. j < length (rows s) \<and> open_slot (rows s ! j) \<and> row_type (rows s ! j) \<noteq> ContextRow \<and>
      (\<forall>k. j < k \<and> k < length (rows s) \<longrightarrow>
           \<not> open_slot (rows s ! k) \<and> row_type (rows s ! k) \<noteq> ContextRow) \<and>
      rows (split_line l s) = (rows s)[j := (rows s ! j)\<lparr>right := Some a\<rparr>])"
proof (cases "type l")
  case Add
  show ?thesis
  proof (cases "merge_scan (rows s) (length (rows s))
                  \<lparr>num = newLineCounter s, side_content = content l, side_type = Some Add\<rparr>")
    case None
    with Add show ?thesis by (simp add: split_line_rows_cases)
  next
    case (Some rs)
    from merge_scan_Some[OF Some] Some Add show ?thesis
      by (simp add: split_line_rows_cases) blast
  qed
qed (simp_all add: split_line_rows_cases)

lemma split_line_length: "length (rows s) \<le> length (rows (split_line l s))"
  using split_line_rows_shape[of l s] by auto

subsection \<open>The invariant of the rows\<close>

lemma rows_provenance:
  "\<forall>r\<in>set (rows (fold split_line ls (split_init h))).
     row_invariant r \<and>
     (row_type r = ContextRow \<longrightarrow>
        (\<exists>pre c post. ls = pre @ c # post \<and> type c = Context \<and>
           left r = Some \<lparr>num = oldStart h + length (filter advances_old pre),
                           side_content = content c, side_type = None\<rparr> \<and>
           right r = Some \<lparr>num = newStart h + length (filter advances_new pre),
                            side_content = content c, side_type = None\<rparr>))"
  (is "\<forall>r\<in>set (rows (fold split_line ls ?i)). ?P ls r")
proof (induction ls rule: rev_induct)
  case Nil
  show ?case by (simp add: split_init_def)
next
  case (snoc x ls)
  define s where "s = fold split_line ls (split_init h)"
  have old: "oldLineCounter s = oldStart h + length (filter advances_old ls)"
    and new: "newLineCounter s = newStart h + length (filter advances_new ls)"
    by (simp_all add: s_def fold_counters split_init_def)
  have keep: "?P (ls @ [x]) r" if "r \<in> set (rows s)" for r
  proof -
    from snoc that have P: "?P ls r" by (simp add: s_def)
    show ?thesis
    proof (intro conjI impI)
      show "row_invariant r" using P by simp
    next
      assume "row_type r = ContextRow"
      with P obtain pre c post where "ls = pre @ c # post" "type c = Context"
        "left r = Some \<lparr>num = oldStart h + length (filter advances_old pre),
                           side_content = content c, side_type = None\<rparr>"
        "right r = Some \<lparr>num = newStart h + length (filter advances_new pre),
                            side_content = content c, side_type = None\<rparr>"
        by blast
      then have "ls @ [x] = pre @ c # (post @ [x]) \<and> type c = Context \<and>
        left r = Some \<lparr>num = oldStart h + length (filter advances_old pre),
                           side_content = content c, side_type = None\<rparr> \<and>
        right r = Some \<lparr>num = newStart h + length (filter advances_new pre),
                            side_content = content c, side_type = None\<rparr>"
        by simp
      then show "\<exists>pre c post. ls @ [x] = pre @ c # post \<and> type c = Context \<and>
           left r = Some \<lparr>num = oldStart h + length (filter advances_old pre),
                           side_content = content c, side_type = None\<rparr> \<and>
           right r = Some \<lparr>num = newStart h + length (filter advances_new pre),
                            side_content = content c, side_type = None\<rparr>"
        by blast
    qed
  qed
  have step: "rows (fold split_line (ls @ [x]) (split_init h)) = rows (split_line x s)"
    by (simp add: s_def)
  show ?case unfolding step
  proof
    fix r assume r: "r \<in> set (rows (split_line x s))"
    show "?P (ls @ [x]) r"
    proof (cases "type x")
      case Context
      with r consider "r \<in> set (rows s)" |
        "r = \<lparr>row_type = ContextRow,
             left = Some \<lparr>num = oldLineCounter s, side_content = content x, side_type = None\<rparr>,
             right = Some \<lparr>num = newLineCounter s, side_content = content x, side_type = None\<rparr>\<rparr>"
        by (auto simp: split_line_rows_cases)
      then show ?thesis
      proof cases
        case 1
        then show ?thesis by (rule keep)
      next
        case 2
        have "ls @ [x] = ls @ x # [] \<and> type x = Context \<and>
           left r = Some \<lparr>num = oldStart h + length (filter advances_old ls),
                           side_content = content x, side_type = None\<rparr> \<and>
           right r = Some \<lparr>num = newStart h + length (filter advances_new ls),
                            side_content = content x, side_type = None\<rparr>"
          using 2 Context old new by simp
        then have "\<exists>pre c post. ls @ [x] = pre @ c # post \<and> type c = Context \<and>
           left r = Some \<lparr>num = oldStart h + length (filter advances_old pre),
                           side_content = content c, side_type = None\<rparr> \<and>
           right r = Some \<lparr>num = newStart h + length (filter advances_new pre),
                            side_content = content c, side_type = None\<rparr>"
          by blast
        moreover have "row_invariant r" using 2 by (simp add: row_invariant_def)
        ultimately show ?thesis by blast
      qed
    next
      case Delete
      with r consider "r \<in> set (rows s)" |
        "r = \<lparr>row_type = ChangeRow,
             left = Some \<lparr>num = oldLineCounter s, side_content = content x,
                          side_type = Some Delete\<rparr>,
             right = None\<rparr>"
        by (auto simp: split_line_rows_cases)
      then show ?thesis
      proof cases
        case 1
        then show ?thesis by (rule keep)
      next
        case 2
        then show ?thesis by (simp add: row_invariant_def)
      qed
    next
      case NoNewline
      with r have "r \<in> set (rows s)" by (simp add: split_line_rows_cases)
      then show ?thesis by (rule keep)
    next
      case Add
      let ?a = "\<lparr>num = newLineCounter s, side_content = content x, side_type = Some Add\<rparr>"
      show ?thesis
      proof (cases "merge_scan (rows s) (length (rows s)) ?a")
        case None
        with Add r consider "r \<in> set (rows s)" |
          "r = \<lparr>row_type = ChangeRow, left = None, right = Some ?a\<rparr>"
          by (auto simp: split_line_rows_cases)
        then show ?thesis
        proof cases
          case 1
          then show ?thesis by (rule keep)
        next
          case 2
          then show ?thesis by (simp add: row_invariant_def)
        qed
      next
        case (Some rs)
        from merge_scan_Some[OF Some] obtain j where j: "j < length (rows s)"
          "row_type (rows s ! j) \<noteq> ContextRow"
          "rs = (rows s)[j := (rows s ! j)\<lparr>right := Some ?a\<rparr>]" by blast
        from Add Some r have "r \<in> set rs" by (simp add: split_line_rows_cases)
        with j(3) have "r \<in> insert ((rows s ! j)\<lparr>right := Some ?a\<rparr>) (set (rows s))"
          using set_update_subset_insert by fastforce
        then consider "r \<in> set (rows s)" | "r = (rows s ! j)\<lparr>right := Some ?a\<rparr>" by blast
        then show ?thesis
        proof cases
          case 1
          then show ?thesis by (rule keep)
        next
          case 2
          with j(2) have "row_type r = ChangeRow" "right r \<noteq> None"
            by (cases "row_type (rows s ! j)"; simp)+
          then show ?thesis by (simp add: row_invariant_def)
        qed
      qed
    qed
  qed
qed

text \<open>
  Claim C8. Every row that \<open>SplitHunk\<close> produces satisfies the row invariant: a context
  row has both sides, with the same content, and a change row has at least one side. The
  two numbers of a context row are tracked independently: the left one counts the context
  and delete lines before it from \<open>oldStart\<close>, the right one the context and add lines
  before it from \<open>newStart\<close>.
\<close>

theorem rows_satisfy_invariant:
  "\<forall>r\<in>set (SplitHunk h).
     row_invariant r \<and>
     (row_type r = ContextRow \<longrightarrow>
        (\<exists>pre c post. lines h = pre @ c # post \<and> type c = Context \<and>
           left r = Some \<lparr>num = oldStart h + length (filter advances_old pre),
                           side_content = content c, side_type = None\<rparr> \<and>
           right r = Some \<lparr>num = newStart h + length (filter advances_new pre),
                            side_content = content c, side_type = None\<rparr>))"
  unfolding SplitHunk_fold by (rule rows_provenance)

theorem rows_satisfy_invariant_example:
  "\<lparr>row_type = ContextRow,
      left = Some \<lparr>num = 3, side_content = '' x'', side_type = None\<rparr>,
      right = Some \<lparr>num = 3, side_content = '' x'', side_type = None\<rparr>\<rparr> \<in> set (SplitHunk \<lparr>header = ''@@ -3,2 +3 @@'',
       lines = [\<lparr>content = '' x'', type = Context\<rparr>, \<lparr>content = ''-y'', type = Delete\<rparr>],
       oldStart = 3, newStart = 3\<rparr>) \<and>
   row_invariant \<lparr>row_type = ContextRow,
      left = Some \<lparr>num = 3, side_content = '' x'', side_type = None\<rparr>,
      right = Some \<lparr>num = 3, side_content = '' x'', side_type = None\<rparr>\<rparr>"
proof -
  let ?h = "\<lparr>header = ''@@ -3,2 +3 @@'',
       lines = [\<lparr>content = '' x'', type = Context\<rparr>, \<lparr>content = ''-y'', type = Delete\<rparr>],
       oldStart = 3, newStart = 3\<rparr>"
  let ?r = "\<lparr>row_type = ContextRow,
      left = Some \<lparr>num = 3, side_content = '' x'', side_type = None\<rparr>,
      right = Some \<lparr>num = 3, side_content = '' x'', side_type = None\<rparr>\<rparr>"
  have mem: "?r \<in> set (SplitHunk ?h)"
    by (simp add: SplitHunk_fold split_init_def split_line_def)
  from rows_satisfy_invariant[of ?h] mem have "row_invariant ?r" by blast
  with mem show ?thesis by simp
qed


subsection \<open>The state fields the rows do not depend on\<close>

lemma split_line_the_hunk_update:
  "split_line l (s\<lparr>the_hunk := x\<rparr>) = (split_line l s)\<lparr>the_hunk := x\<rparr>"
  by (simp add: split_line_def Let_def split: line_type.split option.split)

lemma fold_the_hunk_update:
  "fold split_line ls (s\<lparr>the_hunk := x\<rparr>) = (fold split_line ls s)\<lparr>the_hunk := x\<rparr>"
  by (induction ls arbitrary: s) (simp_all add: split_line_the_hunk_update)

lemma SplitHunk_lines: "SplitHunk (h\<lparr>lines := ls\<rparr>) = rows (fold split_line ls (split_init h))"
proof -
  have "split_init (h\<lparr>lines := ls\<rparr>) = (split_init h)\<lparr>the_hunk := h\<lparr>lines := ls\<rparr>\<rparr>"
    by (simp add: split_init_def)
  then show ?thesis by (simp add: SplitHunk_fold fold_the_hunk_update)
qed

subsection \<open>Filled slots are final\<close>

lemma split_line_keeps_filled:
  assumes "j < length (rows s)" and "right (rows s ! j) \<noteq> None"
  shows "rows (split_line l s) ! j = rows s ! j"
  using split_line_rows_shape[of l s]
proof (elim disjE exE conjE)
  fix new assume "rows (split_line l s) = rows s @ new"
  with assms(1) show ?thesis by (simp add: nth_append)
next
  fix k a assume k: "open_slot (rows s ! k)"
    and upd: "rows (split_line l s) = (rows s)[k := (rows s ! k)\<lparr>right := Some a\<rparr>]"
  from k assms(2) have "k \<noteq> j" by (auto simp: open_slot_def)
  with upd show ?thesis by simp
qed

lemma fold_keeps_filled:
  "j < length (rows s) \<Longrightarrow> right (rows s ! j) \<noteq> None \<Longrightarrow>
   rows (fold split_line ls s) ! j = rows s ! j"
proof (induction ls arbitrary: s)
  case Nil
  show ?case by simp
next
  case (Cons l ls)
  have eq: "rows (split_line l s) ! j = rows s ! j"
    using Cons.prems by (rule split_line_keeps_filled)
  have "j < length (rows (split_line l s))"
    using Cons.prems(1) split_line_length[of s l] by simp
  moreover have "right (rows (split_line l s) ! j) \<noteq> None"
    using Cons.prems(2) by (simp add: eq)
  ultimately have "rows (fold split_line ls (split_line l s)) ! j = rows (split_line l s) ! j"
    by (rule Cons.IH)
  with eq show ?case by simp
qed

subsection \<open>Counting the slots\<close>

lemma left_deletes_append: "left_deletes (xs @ ys) = left_deletes xs @ left_deletes ys"
  by (simp add: left_deletes_def)

lemma right_adds_append: "right_adds (xs @ ys) = right_adds xs @ right_adds ys"
  by (simp add: right_adds_def)

lemma left_deletes_update:
  assumes "j < length rs"
  shows "left_deletes (rs[j := (rs ! j)\<lparr>right := x\<rparr>]) = left_deletes rs"
proof -
  have "left_deletes (rs[j := (rs ! j)\<lparr>right := x\<rparr>]) =
        left_deletes (take j rs @ (rs ! j)\<lparr>right := x\<rparr> # drop (Suc j) rs)"
    using assms by (simp add: upd_conv_take_nth_drop)
  also have "\<dots> = left_deletes (take j rs @ rs ! j # drop (Suc j) rs)"
    by (simp add: left_deletes_def)
  also have "\<dots> = left_deletes rs"
    using assms by (simp add: id_take_nth_drop[symmetric])
  finally show ?thesis .
qed

lemma right_adds_update:
  assumes "j < length rs" and "right (rs ! j) = None" and "side_type a = Some Add"
  shows "mset (right_adds (rs[j := (rs ! j)\<lparr>right := Some a\<rparr>])) = mset (right_adds rs) + {#a#}"
proof -
  have "right_adds (rs[j := (rs ! j)\<lparr>right := Some a\<rparr>]) =
        right_adds (take j rs @ (rs ! j)\<lparr>right := Some a\<rparr> # drop (Suc j) rs)"
    using assms(1) by (simp add: upd_conv_take_nth_drop)
  also have "\<dots> = right_adds (take j rs) @ a # right_adds (drop (Suc j) rs)"
    using assms(3) by (simp add: right_adds_def)
  finally have 1: "mset (right_adds (rs[j := (rs ! j)\<lparr>right := Some a\<rparr>])) =
     mset (right_adds (take j rs)) + mset (right_adds (drop (Suc j) rs)) + {#a#}"
    by simp
  have "right_adds rs = right_adds (take j rs @ rs ! j # drop (Suc j) rs)"
    using assms(1) by (simp add: id_take_nth_drop[symmetric])
  also have "\<dots> = right_adds (take j rs) @ right_adds (drop (Suc j) rs)"
    using assms(2) by (simp add: right_adds_def)
  finally have "mset (right_adds rs) =
     mset (right_adds (take j rs)) + mset (right_adds (drop (Suc j) rs))"
    by simp
  with 1 show ?thesis by simp
qed

lemma split_line_left_deletes:
  "left_deletes (rows (split_line l s)) =
     left_deletes (rows s) @
       (if type l = Delete
        then [\<lparr>num = oldLineCounter s, side_content = content l, side_type = Some Delete\<rparr>]
        else [])"
proof (cases "type l")
  case Add
  let ?a = "\<lparr>num = newLineCounter s, side_content = content l, side_type = Some Add\<rparr>"
  show ?thesis
  proof (cases "merge_scan (rows s) (length (rows s)) ?a")
    case None
    with Add show ?thesis
      by (simp add: split_line_rows_cases left_deletes_append) (simp add: left_deletes_def)
  next
    case (Some rs)
    from merge_scan_Some[OF Some] obtain j where "j < length (rows s)"
      "rs = (rows s)[j := (rows s ! j)\<lparr>right := Some ?a\<rparr>]" by blast
    with Add Some show ?thesis by (simp add: split_line_rows_cases left_deletes_update)
  qed
qed (simp_all add: split_line_rows_cases left_deletes_append, simp_all add: left_deletes_def)

lemma split_line_right_adds:
  "mset (right_adds (rows (split_line l s))) =
     mset (right_adds (rows s)) +
       (if type l = Add
        then {#\<lparr>num = newLineCounter s, side_content = content l, side_type = Some Add\<rparr>#}
        else {#})"
proof (cases "type l")
  case Add
  let ?a = "\<lparr>num = newLineCounter s, side_content = content l, side_type = Some Add\<rparr>"
  show ?thesis
  proof (cases "merge_scan (rows s) (length (rows s)) ?a")
    case None
    with Add show ?thesis
      by (simp add: split_line_rows_cases right_adds_append) (simp add: right_adds_def)
  next
    case (Some rs)
    from merge_scan_Some[OF Some] obtain j where j: "j < length (rows s)"
      "open_slot (rows s ! j)"
      "rs = (rows s)[j := (rows s ! j)\<lparr>right := Some ?a\<rparr>]" by blast
    from j(2) have "right (rows s ! j) = None" by (simp add: open_slot_def)
    with j(1) have "mset (right_adds ((rows s)[j := (rows s ! j)\<lparr>right := Some ?a\<rparr>])) =
       mset (right_adds (rows s)) + {#?a#}"
      by (intro right_adds_update) simp_all
    with Add Some j(3) show ?thesis by (simp add: split_line_rows_cases)
  qed
qed (simp_all add: split_line_rows_cases right_adds_append, simp_all add: right_adds_def)

lemma fold_left_deletes:
  "left_deletes (rows (fold split_line ls s)) =
     left_deletes (rows s) @ delete_sides (oldLineCounter s) ls"
proof (induction ls arbitrary: s)
  case Nil
  show ?case by simp
next
  case (Cons l ls)
  show ?case
    by (cases "type l")
       (simp_all add: Cons.IH split_line_left_deletes split_line_counters advances_old_def)
qed

lemma fold_right_adds:
  "mset (right_adds (rows (fold split_line ls s))) =
     mset (right_adds (rows s)) + mset (add_sides (newLineCounter s) ls)"
proof (induction ls arbitrary: s)
  case Nil
  show ?case by simp
next
  case (Cons l ls)
  show ?case
    by (cases "type l")
       (simp_all add: Cons.IH split_line_right_adds split_line_counters advances_new_def)
qed

subsection \<open>The rows depend on the rows and the counters only\<close>

lemma split_line_cong:
  assumes "rows s = rows t" "oldLineCounter s = oldLineCounter t"
    "newLineCounter s = newLineCounter t"
  shows "rows (split_line l s) = rows (split_line l t) \<and>
         oldLineCounter (split_line l s) = oldLineCounter (split_line l t) \<and>
         newLineCounter (split_line l s) = newLineCounter (split_line l t)"
  using assms by (simp add: split_line_rows_cases split_line_counters split: line_type.split option.split)

lemma fold_split_line_cong:
  "rows s = rows t \<Longrightarrow> oldLineCounter s = oldLineCounter t \<Longrightarrow>
   newLineCounter s = newLineCounter t \<Longrightarrow>
   rows (fold split_line ls s) = rows (fold split_line ls t)"
proof (induction ls arbitrary: s t)
  case Nil
  then show ?case by simp
next
  case (Cons l ls)
  from split_line_cong[OF Cons.prems, of l]
  have "rows (fold split_line ls (split_line l s)) = rows (fold split_line ls (split_line l t))"
    by (intro Cons.IH) simp_all
  then show ?case by simp
qed

subsection \<open>The hunk is left as it was\<close>

lemma split_loop_hunk: "the_hunk (split_loop s) = the_hunk s"
proof (induction s rule: split_loop.induct)
  case (1 s)
  show ?case
  proof (cases "line_index s < length (lines (the_hunk s))")
    case True
    then have "split_loop s = split_loop (split_step s)"
      by (subst split_loop.simps) simp
    with True "1.IH" show ?thesis by (simp add: split_step_def split_line_hunk)
  next
    case False
    then show ?thesis by (subst split_loop.simps) simp
  qed
qed

text \<open>
  Claim C9. The loop never assigns to the hunk: after \<open>SplitHunk\<close> has run, the hunk held
  by the final state is the hunk it was given, so its lines and both start numbers are
  unchanged. A second call, made on the hunk as the first call left it, therefore returns
  the same row sequence. The rows are a function of the lines and the two start numbers
  only: the header plays no part. The loop is a total function, so each call does return.
\<close>

theorem SplitHunk_leaves_hunk_and_repeats:
  "lines (the_hunk (split_loop (split_init h))) = lines h \<and>
   oldStart (the_hunk (split_loop (split_init h))) = oldStart h \<and>
   newStart (the_hunk (split_loop (split_init h))) = newStart h \<and>
   the_hunk (split_loop (split_init h)) = h \<and>
   SplitHunk (the_hunk (split_loop (split_init h))) = SplitHunk h \<and>
   SplitHunk (h\<lparr>header := x\<rparr>) = SplitHunk h"
proof -
  have "rows (fold split_line (lines h) (split_init (h\<lparr>header := x\<rparr>))) =
        rows (fold split_line (lines h) (split_init h))"
    by (rule fold_split_line_cong) (simp_all add: split_init_def)
  then have "SplitHunk (h\<lparr>header := x\<rparr>) = SplitHunk h"
    by (simp add: SplitHunk_fold)
  then show ?thesis by (simp add: split_loop_hunk split_init_def)
qed

subsection \<open>Rows up to a context row are final\<close>

lemma merge_scan_behind_context:
  assumes "row_type c = ContextRow"
  shows "n \<le> length Q \<Longrightarrow>
     merge_scan (P @ c # Q) (Suc (length P + n)) a =
       map_option (\<lambda>Q'. P @ c # Q') (merge_scan Q n a)"
proof (induction n)
  case 0
  show ?case using assms by simp
next
  case (Suc n)
  then have n: "n < length Q" by simp
  have IH: "merge_scan (P @ c # Q) (Suc (length P + n)) a =
       map_option (\<lambda>Q'. P @ c # Q') (merge_scan Q n a)"
    by (rule Suc.IH[OF less_imp_le[OF n]])
  have nth: "(P @ c # Q) ! Suc (length P + n) = Q ! n"
    by (simp add: nth_append)
  have upd: "(P @ c # Q)[Suc (length P + n) := x] = P @ c # Q[n := x]" for x
    by (simp add: list_update_append)
  have "merge_scan (P @ c # Q) (Suc (Suc (length P + n))) a =
     (if row_type (Q ! n) = ContextRow then None
      else if open_slot (Q ! n) then Some (P @ c # Q[n := (Q ! n)\<lparr>right := Some a\<rparr>])
      else map_option (\<lambda>Q'. P @ c # Q') (merge_scan Q n a))"
    by (subst merge_scan.simps(2)) (simp only: nth upd IH)
  also have "\<dots> = map_option (\<lambda>Q'. P @ c # Q') (merge_scan Q (Suc n) a)"
    by (subst merge_scan.simps(2)) simp
  finally show ?case by (simp only: add_Suc_right)
qed

lemma split_line_behind_context:
  assumes c: "row_type c = ContextRow" and r: "rows s = P @ c # Q"
  shows "rows (split_line l s) = P @ c # rows (split_line l (s\<lparr>rows := Q\<rparr>))"
proof (cases "type l")
  case Add
  have "merge_scan (P @ c # Q) (length (P @ c # Q)) a =
        map_option (\<lambda>Q'. P @ c # Q') (merge_scan Q (length Q) a)" for a
    using merge_scan_behind_context[OF c, of "length Q" Q P a] by simp
  with Add r show ?thesis
    by (simp add: split_line_rows_cases split: option.split)
qed (simp_all add: r split_line_rows_cases)

lemma fold_behind_context:
  "row_type c = ContextRow \<Longrightarrow> rows s = P @ c # Q \<Longrightarrow>
   rows (fold split_line ls s) = P @ c # rows (fold split_line ls (s\<lparr>rows := Q\<rparr>))"
proof (induction ls arbitrary: s Q)
  case Nil
  then show ?case by simp
next
  case (Cons l ls)
  let ?Q' = "rows (split_line l (s\<lparr>rows := Q\<rparr>))"
  have r: "rows (split_line l s) = P @ c # ?Q'"
    using Cons.prems by (rule split_line_behind_context)
  have "rows (fold split_line ls (split_line l s)) =
        P @ c # rows (fold split_line ls ((split_line l s)\<lparr>rows := ?Q'\<rparr>))"
    using Cons.prems(1) r by (rule Cons.IH)
  moreover have "rows (fold split_line ls ((split_line l s)\<lparr>rows := ?Q'\<rparr>)) =
        rows (fold split_line ls (split_line l (s\<lparr>rows := Q\<rparr>)))"
    by (rule fold_split_line_cong) (simp_all add: split_line_counters)
  ultimately show ?case by simp
qed

lemma SplitHunk_after_context:
  assumes "type c = Context"
  shows "SplitHunk (h\<lparr>lines := ls @ c # ls'\<rparr>) =
     SplitHunk (h\<lparr>lines := ls @ [c]\<rparr>) @
     SplitHunk (h\<lparr>lines := ls',
                 oldStart := oldStart h + length (filter advances_old (ls @ [c])),
                 newStart := newStart h + length (filter advances_new (ls @ [c]))\<rparr>)"
proof -
  define s0 where "s0 = fold split_line ls (split_init h)"
  define s1 where "s1 = split_line c s0"
  let ?row = "\<lparr>row_type = ContextRow,
             left = Some \<lparr>num = oldLineCounter s0, side_content = content c, side_type = None\<rparr>,
             right = Some \<lparr>num = newLineCounter s0, side_content = content c, side_type = None\<rparr>\<rparr>"
  have r1: "rows s1 = rows s0 @ ?row # []"
    using assms by (simp add: s1_def split_line_rows_cases)
  have first: "SplitHunk (h\<lparr>lines := ls @ [c]\<rparr>) = rows s0 @ [?row]"
    using r1 by (simp add: SplitHunk_lines s0_def s1_def)
  have "SplitHunk (h\<lparr>lines := ls @ c # ls'\<rparr>) = rows (fold split_line ls' s1)"
    by (simp add: SplitHunk_lines s0_def s1_def)
  also have "\<dots> = rows s0 @ ?row # rows (fold split_line ls' (s1\<lparr>rows := []\<rparr>))"
    by (rule fold_behind_context[OF _ r1]) simp
  also have "rows (fold split_line ls' (s1\<lparr>rows := []\<rparr>)) =
     rows (fold split_line ls'
        (split_init (h\<lparr>lines := ls',
                 oldStart := oldStart h + length (filter advances_old (ls @ [c])),
                 newStart := newStart h + length (filter advances_new (ls @ [c]))\<rparr>)))"
    by (rule fold_split_line_cong)
       (simp_all add: s1_def s0_def split_init_def split_line_counters fold_counters)
  also have "\<dots> = SplitHunk (h\<lparr>lines := ls',
                 oldStart := oldStart h + length (filter advances_old (ls @ [c])),
                 newStart := newStart h + length (filter advances_new (ls @ [c]))\<rparr>)"
    by (simp add: SplitHunk_fold)
  finally show ?thesis by (simp add: first)
qed

lemma merge_scan_below_context:
  assumes "j < n" "row_type (rs ! j) = ContextRow" "merge_scan rs n a = Some rs'"
  shows "\<exists>k. j < k \<and> k < n \<and> open_slot (rs ! k) \<and> rs' = rs[k := (rs ! k)\<lparr>right := Some a\<rparr>]"
proof -
  from merge_scan_Some[OF assms(3)] obtain k where k: "k < n" "open_slot (rs ! k)"
    "row_type (rs ! k) \<noteq> ContextRow" "rs' = rs[k := (rs ! k)\<lparr>right := Some a\<rparr>]"
    "\<forall>i. k < i \<and> i < n \<longrightarrow> \<not> open_slot (rs ! i) \<and> row_type (rs ! i) \<noteq> ContextRow"
    by blast
  have "j \<noteq> k" using k(3) assms(2) by auto
  moreover have "\<not> k < j" using k(5) assms(1,2) by auto
  ultimately have "j < k" by simp
  with k show ?thesis by blast
qed

text \<open>
  Claim C5. The backward scan for an add line stops without merging when it reaches a
  context row: started at a context row it returns nothing, and when it does merge below
  a context row, the slot it fills lies strictly after that row. For the whole hunk this
  means that the rows up to and including a context line are final, and the lines after it
  are reconciled on their own with the counters where the context line left them. The
  hunk \<open>-A\<close>, \<open> B\<close>, \<open>+C\<close> gives three rows, with \<open>A\<close> and \<open>C\<close> in different rows.
\<close>

theorem context_row_stops_the_scan:
  "(row_type (rs ! j) = ContextRow \<longrightarrow> merge_scan rs (Suc j) a = None) \<and>
   (j < n \<and> row_type (rs ! j) = ContextRow \<and> merge_scan rs n a = Some rs' \<longrightarrow>
      (\<exists>k. j < k \<and> k < n \<and> open_slot (rs ! k) \<and> rs' = rs[k := (rs ! k)\<lparr>right := Some a\<rparr>])) \<and>
   (type c = Context \<longrightarrow>
      SplitHunk (h\<lparr>lines := ls @ c # ls'\<rparr>) =
        SplitHunk (h\<lparr>lines := ls @ [c]\<rparr>) @
        SplitHunk (h\<lparr>lines := ls',
                 oldStart := oldStart h + length (filter advances_old (ls @ [c])),
                 newStart := newStart h + length (filter advances_new (ls @ [c]))\<rparr>)) \<and>
   SplitHunk \<lparr>header = hdr, lines = [\<lparr>content = ''-A'', type = Delete\<rparr>,
                                   \<lparr>content = '' B'', type = Context\<rparr>,
                                   \<lparr>content = ''+C'', type = Add\<rparr>],
              oldStart = old, newStart = new\<rparr> =
     [\<lparr>row_type = ChangeRow,
       left = Some \<lparr>num = old, side_content = ''-A'', side_type = Some Delete\<rparr>,
       right = None\<rparr>,
      \<lparr>row_type = ContextRow,
       left = Some \<lparr>num = old + 1, side_content = '' B'', side_type = None\<rparr>,
       right = Some \<lparr>num = new, side_content = '' B'', side_type = None\<rparr>\<rparr>,
      \<lparr>row_type = ChangeRow, left = None,
       right = Some \<lparr>num = new + 1, side_content = ''+C'', side_type = Some Add\<rparr>\<rparr>]"
proof (intro conjI impI)
  assume "row_type (rs ! j) = ContextRow"
  then show "merge_scan rs (Suc j) a = None" by simp
next
  assume "j < n \<and> row_type (rs ! j) = ContextRow \<and> merge_scan rs n a = Some rs'"
  then show "\<exists>k. j < k \<and> k < n \<and> open_slot (rs ! k) \<and> rs' = rs[k := (rs ! k)\<lparr>right := Some a\<rparr>]"
    using merge_scan_below_context by blast
next
  assume "type c = Context"
  then show "SplitHunk (h\<lparr>lines := ls @ c # ls'\<rparr>) =
        SplitHunk (h\<lparr>lines := ls @ [c]\<rparr>) @
        SplitHunk (h\<lparr>lines := ls',
                 oldStart := oldStart h + length (filter advances_old (ls @ [c])),
                 newStart := newStart h + length (filter advances_new (ls @ [c]))\<rparr>)"
    by (rule SplitHunk_after_context)
next
  show "SplitHunk \<lparr>header = hdr, lines = [\<lparr>content = ''-A'', type = Delete\<rparr>,
                                   \<lparr>content = '' B'', type = Context\<rparr>,
                                   \<lparr>content = ''+C'', type = Add\<rparr>],
              oldStart = old, newStart = new\<rparr> =
     [\<lparr>row_type = ChangeRow,
       left = Some \<lparr>num = old, side_content = ''-A'', side_type = Some Delete\<rparr>,
       right = None\<rparr>,
      \<lparr>row_type = ContextRow,
       left = Some \<lparr>num = old + 1, side_content = '' B'', side_type = None\<rparr>,
       right = Some \<lparr>num = new, side_content = '' B'', side_type = None\<rparr>\<rparr>,
      \<lparr>row_type = ChangeRow, left = None,
       right = Some \<lparr>num = new + 1, side_content = ''+C'', side_type = Some Add\<rparr>\<rparr>]"
    by (simp add: SplitHunk_fold split_init_def split_line_def)
qed

theorem context_row_stops_the_scan_example:
  "merge_scan [\<lparr>row_type = ContextRow,
             left = Some \<lparr>num = 1, side_content = '' B'', side_type = None\<rparr>,
             right = Some \<lparr>num = 1, side_content = '' B'', side_type = None\<rparr>\<rparr>] (Suc 0) \<lparr>num = 2, side_content = ''+E'', side_type = Some Add\<rparr> = None \<and>
   merge_scan [\<lparr>row_type = ContextRow,
             left = Some \<lparr>num = 1, side_content = '' B'', side_type = None\<rparr>,
             right = Some \<lparr>num = 1, side_content = '' B'', side_type = None\<rparr>\<rparr>, \<lparr>row_type = ChangeRow,
             left = Some \<lparr>num = 2, side_content = ''-D'', side_type = Some Delete\<rparr>,
             right = None\<rparr>] 2 \<lparr>num = 2, side_content = ''+E'', side_type = Some Add\<rparr> =
     Some [\<lparr>row_type = ContextRow,
             left = Some \<lparr>num = 1, side_content = '' B'', side_type = None\<rparr>,
             right = Some \<lparr>num = 1, side_content = '' B'', side_type = None\<rparr>\<rparr>, \<lparr>row_type = ChangeRow,
             left = Some \<lparr>num = 2, side_content = ''-D'', side_type = Some Delete\<rparr>,
             right = None\<rparr>\<lparr>right := Some \<lparr>num = 2, side_content = ''+E'', side_type = Some Add\<rparr>\<rparr>] \<and>
   SplitHunk (\<lparr>header = ''@@ -1,2 +1,2 @@'', lines = [], oldStart = 1, newStart = 1\<rparr>\<lparr>lines := [\<lparr>content = ''-A'', type = Delete\<rparr>,
                     \<lparr>content = '' B'', type = Context\<rparr>,
                     \<lparr>content = ''+C'', type = Add\<rparr>]\<rparr>) =
     SplitHunk (\<lparr>header = ''@@ -1,2 +1,2 @@'', lines = [], oldStart = 1, newStart = 1\<rparr>\<lparr>lines := [\<lparr>content = ''-A'', type = Delete\<rparr>,
                       \<lparr>content = '' B'', type = Context\<rparr>]\<rparr>) @
     SplitHunk (\<lparr>header = ''@@ -1,2 +1,2 @@'', lines = [], oldStart = 1, newStart = 1\<rparr>\<lparr>lines := [\<lparr>content = ''+C'', type = Add\<rparr>],
                       oldStart := 3, newStart := 2\<rparr>)"
proof -
  let ?ctx = "\<lparr>row_type = ContextRow,
             left = Some \<lparr>num = 1, side_content = '' B'', side_type = None\<rparr>,
             right = Some \<lparr>num = 1, side_content = '' B'', side_type = None\<rparr>\<rparr>"
  let ?open = "\<lparr>row_type = ChangeRow,
             left = Some \<lparr>num = 2, side_content = ''-D'', side_type = Some Delete\<rparr>,
             right = None\<rparr>"
  let ?a = "\<lparr>num = 2, side_content = ''+E'', side_type = Some Add\<rparr>"
  let ?h = "\<lparr>header = ''@@ -1,2 +1,2 @@'', lines = [], oldStart = 1, newStart = 1\<rparr>"
  let ?d = "\<lparr>content = ''-A'', type = Delete\<rparr>"
  let ?c = "\<lparr>content = '' B'', type = Context\<rparr>"
  let ?l = "\<lparr>content = ''+C'', type = Add\<rparr>"
  have scan: "merge_scan [?ctx, ?open] 2 ?a = Some [?ctx, ?open\<lparr>right := Some ?a\<rparr>]"
    by (simp add: numeral_2_eq_2 open_slot_def)
  note t = context_row_stops_the_scan[where rs = "[?ctx, ?open]" and j = 0 and n = 2
      and a = ?a and rs' = "[?ctx, ?open\<lparr>right := Some ?a\<rparr>]" and c = ?c and h = ?h
      and ls = "[?d]" and ls' = "[?l]" and hdr = "''@@''" and old = 1 and new = 1]
  from t have 1: "merge_scan [?ctx, ?open] (Suc 0) ?a = None" by simp
  from t scan have 2: "\<exists>k. 0 < k \<and> k < 2 \<and> open_slot ([?ctx, ?open] ! k) \<and>
      [?ctx, ?open\<lparr>right := Some ?a\<rparr>] = [?ctx, ?open][k := ([?ctx, ?open] ! k)\<lparr>right := Some ?a\<rparr>]"
    by simp
  from t have 3: "SplitHunk (?h\<lparr>lines := [?d] @ ?c # [?l]\<rparr>) =
        SplitHunk (?h\<lparr>lines := [?d] @ [?c]\<rparr>) @
        SplitHunk (?h\<lparr>lines := [?l],
                 oldStart := oldStart ?h + length (filter advances_old ([?d] @ [?c])),
                 newStart := newStart ?h + length (filter advances_new ([?d] @ [?c]))\<rparr>)"
    by simp
  have "merge_scan [?ctx] (Suc 0) ?a = None" using 1 by simp
  moreover note scan
  moreover from 3 have "SplitHunk (?h\<lparr>lines := [?d, ?c, ?l]\<rparr>) =
     SplitHunk (?h\<lparr>lines := [?d, ?c]\<rparr>) @
     SplitHunk (?h\<lparr>lines := [?l], oldStart := 3, newStart := 2\<rparr>)"
    by (simp add: advances_old_def advances_new_def numeral_2_eq_2 numeral_3_eq_3)
  ultimately show ?thesis by (intro conjI)
qed


lemma SplitHunk_add_line:
  assumes "type l = Add"
    and a_def: "a = \<lparr>num = newStart h + length (filter advances_new ls),
                  side_content = content l, side_type = Some Add\<rparr>"
    and rs_def: "rs = SplitHunk (h\<lparr>lines := ls\<rparr>)"
  shows "(SplitHunk (h\<lparr>lines := ls @ [l]\<rparr>) =
            rs @ [\<lparr>row_type = ChangeRow, left = None, right = Some a\<rparr>] \<and>
          ((\<forall>k<length rs. \<not> open_slot (rs ! k) \<and> row_type (rs ! k) \<noteq> ContextRow) \<or>
           (\<exists>j<length rs. row_type (rs ! j) = ContextRow \<and>
              (\<forall>k. j < k \<and> k < length rs \<longrightarrow>
                   \<not> open_slot (rs ! k) \<and> row_type (rs ! k) \<noteq> ContextRow)))) \<or>
         (\<exists>j<length rs. open_slot (rs ! j) \<and> row_type (rs ! j) \<noteq> ContextRow \<and>
            (\<forall>k. j < k \<and> k < length rs \<longrightarrow>
                 \<not> open_slot (rs ! k) \<and> row_type (rs ! k) \<noteq> ContextRow) \<and>
            SplitHunk (h\<lparr>lines := ls @ [l]\<rparr>) = rs[j := (rs ! j)\<lparr>right := Some a\<rparr>])"
proof -
  define s where "s = fold split_line ls (split_init h)"
  have rs: "rows s = rs" by (simp add: rs_def s_def SplitHunk_lines)
  have new: "\<lparr>num = newLineCounter s, side_content = content l, side_type = Some Add\<rparr> = a"
    by (simp add: a_def s_def fold_counters split_init_def)
  have step: "SplitHunk (h\<lparr>lines := ls @ [l]\<rparr>) =
     (case merge_scan rs (length rs) a of
        Some rs' \<Rightarrow> rs'
      | None \<Rightarrow> rs @ [\<lparr>row_type = ChangeRow, left = None, right = Some a\<rparr>])"
    using assms(1)
    by (simp add: SplitHunk_lines s_def[symmetric] split_line_rows_cases rs new split: option.split)
  show ?thesis
  proof (cases "merge_scan rs (length rs) a")
    case None
    from merge_scan_None[OF None] None step show ?thesis by simp
  next
    case (Some rs')
    from merge_scan_Some[OF Some] Some step show ?thesis by simp blast
  qed
qed

text \<open>
  Claim C10. Each delete line of a hunk is the left side of exactly one row, and each add
  line is the right side of exactly one row: the filled left slots, read in row order, are
  the delete lines with their old numbers, and the filled right slots are, as a multiset,
  the add lines with their new numbers. An add line either appends a row or fills the
  nearest open slot before it, with no context row and no other open slot in between.
  A row whose right side is filled is never changed by any later line.
\<close>

theorem every_change_line_fills_one_slot:
  "left_deletes (SplitHunk h) = delete_sides (oldStart h) (lines h) \<and>
   mset (right_adds (SplitHunk h)) = mset (add_sides (newStart h) (lines h)) \<and>
   (type l = Add \<longrightarrow>
      (SplitHunk (h\<lparr>lines := ls @ [l]\<rparr>) =
         SplitHunk (h\<lparr>lines := ls\<rparr>) @
           [\<lparr>row_type = ChangeRow, left = None,
             right = Some \<lparr>num = newStart h + length (filter advances_new ls),
                           side_content = content l, side_type = Some Add\<rparr>\<rparr>]) \<or>
      (\<exists>j<length (SplitHunk (h\<lparr>lines := ls\<rparr>)).
          open_slot (SplitHunk (h\<lparr>lines := ls\<rparr>) ! j) \<and>
          (\<forall>k. j < k \<and> k < length (SplitHunk (h\<lparr>lines := ls\<rparr>)) \<longrightarrow>
               \<not> open_slot (SplitHunk (h\<lparr>lines := ls\<rparr>) ! k) \<and>
               row_type (SplitHunk (h\<lparr>lines := ls\<rparr>) ! k) \<noteq> ContextRow) \<and>
          SplitHunk (h\<lparr>lines := ls @ [l]\<rparr>) =
            (SplitHunk (h\<lparr>lines := ls\<rparr>))
              [j := (SplitHunk (h\<lparr>lines := ls\<rparr>) ! j)
                      \<lparr>right := Some \<lparr>num = newStart h + length (filter advances_new ls),
                                       side_content = content l, side_type = Some Add\<rparr>\<rparr>])) \<and>
   (i < length (SplitHunk (h\<lparr>lines := ls\<rparr>)) \<and>
    right (SplitHunk (h\<lparr>lines := ls\<rparr>) ! i) \<noteq> None \<longrightarrow>
      SplitHunk (h\<lparr>lines := ls @ ls'\<rparr>) ! i = SplitHunk (h\<lparr>lines := ls\<rparr>) ! i)"
proof (intro conjI impI)
  show "left_deletes (SplitHunk h) = delete_sides (oldStart h) (lines h)"
    using fold_left_deletes[of "lines h" "split_init h"]
    by (simp add: SplitHunk_fold) (simp add: split_init_def left_deletes_def)
next
  show "mset (right_adds (SplitHunk h)) = mset (add_sides (newStart h) (lines h))"
    using fold_right_adds[of "lines h" "split_init h"]
    by (simp add: SplitHunk_fold) (simp add: split_init_def right_adds_def)
next
  assume "type l = Add"
  from SplitHunk_add_line[OF this refl refl, where h = h and ls = ls]
  show "(SplitHunk (h\<lparr>lines := ls @ [l]\<rparr>) =
         SplitHunk (h\<lparr>lines := ls\<rparr>) @
           [\<lparr>row_type = ChangeRow, left = None,
             right = Some \<lparr>num = newStart h + length (filter advances_new ls),
                           side_content = content l, side_type = Some Add\<rparr>\<rparr>]) \<or>
      (\<exists>j<length (SplitHunk (h\<lparr>lines := ls\<rparr>)).
          open_slot (SplitHunk (h\<lparr>lines := ls\<rparr>) ! j) \<and>
          (\<forall>k. j < k \<and> k < length (SplitHunk (h\<lparr>lines := ls\<rparr>)) \<longrightarrow>
               \<not> open_slot (SplitHunk (h\<lparr>lines := ls\<rparr>) ! k) \<and>
               row_type (SplitHunk (h\<lparr>lines := ls\<rparr>) ! k) \<noteq> ContextRow) \<and>
          SplitHunk (h\<lparr>lines := ls @ [l]\<rparr>) =
            (SplitHunk (h\<lparr>lines := ls\<rparr>))
              [j := (SplitHunk (h\<lparr>lines := ls\<rparr>) ! j)
                      \<lparr>right := Some \<lparr>num = newStart h + length (filter advances_new ls),
                                       side_content = content l, side_type = Some Add\<rparr>\<rparr>])"
    by blast
next
  assume a: "i < length (SplitHunk (h\<lparr>lines := ls\<rparr>)) \<and>
    right (SplitHunk (h\<lparr>lines := ls\<rparr>) ! i) \<noteq> None"
  define s where "s = fold split_line ls (split_init h)"
  from a have "i < length (rows s)" "right (rows s ! i) \<noteq> None"
    by (simp_all add: s_def SplitHunk_lines)
  then have "rows (fold split_line ls' s) ! i = rows s ! i" by (rule fold_keeps_filled)
  then show "SplitHunk (h\<lparr>lines := ls @ ls'\<rparr>) ! i = SplitHunk (h\<lparr>lines := ls\<rparr>) ! i"
    by (simp add: SplitHunk_lines s_def)
qed

theorem every_change_line_fills_one_slot_example:
  "left_deletes (SplitHunk \<lparr>header = ''@@ -1 +1,2 @@'',
       lines = [\<lparr>content = ''-a'', type = Delete\<rparr>, \<lparr>content = ''+b'', type = Add\<rparr>,
                \<lparr>content = ''+c'', type = Add\<rparr>],
       oldStart = 1, newStart = 1\<rparr>) =
     [\<lparr>num = 1, side_content = ''-a'', side_type = Some Delete\<rparr>] \<and>
   mset (right_adds (SplitHunk \<lparr>header = ''@@ -1 +1,2 @@'',
       lines = [\<lparr>content = ''-a'', type = Delete\<rparr>, \<lparr>content = ''+b'', type = Add\<rparr>,
                \<lparr>content = ''+c'', type = Add\<rparr>],
       oldStart = 1, newStart = 1\<rparr>)) =
     {#\<lparr>num = 1, side_content = ''+b'', side_type = Some Add\<rparr>,
       \<lparr>num = 2, side_content = ''+c'', side_type = Some Add\<rparr>#} \<and>
   SplitHunk (\<lparr>header = ''@@ -1 +1,2 @@'',
       lines = [\<lparr>content = ''-a'', type = Delete\<rparr>, \<lparr>content = ''+b'', type = Add\<rparr>,
                \<lparr>content = ''+c'', type = Add\<rparr>],
       oldStart = 1, newStart = 1\<rparr>\<lparr>lines := [\<lparr>content = ''-a'', type = Delete\<rparr>,
                     \<lparr>content = ''+b'', type = Add\<rparr>] @
                    [\<lparr>content = ''+c'', type = Add\<rparr>]\<rparr>) ! 0 =
     \<lparr>row_type = ChangeRow,
      left = Some \<lparr>num = 1, side_content = ''-a'', side_type = Some Delete\<rparr>,
      right = Some \<lparr>num = 1, side_content = ''+b'', side_type = Some Add\<rparr>\<rparr>"
proof -
  let ?d = "\<lparr>content = ''-a'', type = Delete\<rparr>"
  let ?b = "\<lparr>content = ''+b'', type = Add\<rparr>"
  let ?c = "\<lparr>content = ''+c'', type = Add\<rparr>"
  let ?h = "\<lparr>header = ''@@ -1 +1,2 @@'',
       lines = [\<lparr>content = ''-a'', type = Delete\<rparr>, \<lparr>content = ''+b'', type = Add\<rparr>,
                \<lparr>content = ''+c'', type = Add\<rparr>],
       oldStart = 1, newStart = 1\<rparr>"
  let ?row = "\<lparr>row_type = ChangeRow,
      left = Some \<lparr>num = 1, side_content = ''-a'', side_type = Some Delete\<rparr>,
      right = Some \<lparr>num = 1, side_content = ''+b'', side_type = Some Add\<rparr>\<rparr>"
  have two: "SplitHunk (?h\<lparr>lines := [?d, ?b]\<rparr>) = [?row]"
    by (simp add: SplitHunk_fold split_init_def split_line_def open_slot_def)
  note t = every_change_line_fills_one_slot[where h = ?h and l = ?b and ls = "[?d, ?b]"
      and i = 0 and ls' = "[?c]"]
  from t have "left_deletes (SplitHunk ?h) = delete_sides (oldStart ?h) (lines ?h)" by blast
  then have 1: "left_deletes (SplitHunk ?h) =
     [\<lparr>num = 1, side_content = ''-a'', side_type = Some Delete\<rparr>]" by simp
  from t have "mset (right_adds (SplitHunk ?h)) = mset (add_sides (newStart ?h) (lines ?h))"
    by blast
  then have 2: "mset (right_adds (SplitHunk ?h)) =
     {#\<lparr>num = 1, side_content = ''+b'', side_type = Some Add\<rparr>,
       \<lparr>num = 2, side_content = ''+c'', side_type = Some Add\<rparr>#}" by simp
  from t have "0 < length (SplitHunk (?h\<lparr>lines := [?d, ?b]\<rparr>)) \<and>
      right (SplitHunk (?h\<lparr>lines := [?d, ?b]\<rparr>) ! 0) \<noteq> None \<longrightarrow>
      SplitHunk (?h\<lparr>lines := [?d, ?b] @ [?c]\<rparr>) ! 0 = SplitHunk (?h\<lparr>lines := [?d, ?b]\<rparr>) ! 0"
    by blast
  with two have 3: "SplitHunk (?h\<lparr>lines := [?d, ?b] @ [?c]\<rparr>) ! 0 = ?row"
    by simp
  from 1 2 3 show ?thesis by (intro conjI)
qed

section \<open>Properties of the parser\<close>

subsection \<open>Input without a file header\<close>

lemma parse_line_no_file:
  "currentFile st = None \<Longrightarrow> \<not> startsWith line ''diff --git'' \<Longrightarrow> parse_line st line = st"
  by (simp add: parse_line_def)

lemma parse_loop_no_file:
  "currentFile st = None \<Longrightarrow> \<forall>line\<in>set ls. \<not> startsWith line ''diff --git'' \<Longrightarrow>
   parse_loop st ls = st"
  by (induction ls) (simp_all add: parse_line_no_file)

text \<open>
  Claim C7. For \<open>null\<close> or absent input, for the empty string, and for every text none of
  whose lines starts with \<open>diff --git\<close>, \<open>parseDiff\<close> returns the empty list. The model
  is a total function with no failure branch, so no error is raised.
\<close>

theorem no_header_no_files:
  "parseDiff None = [] \<and> parseDiff (Some []) = [] \<and>
   ((\<forall>line\<in>set (split_newline t). \<not> startsWith line ''diff --git'') \<longrightarrow>
      parseDiff (Some t) = [])"
proof (intro conjI impI)
  assume "\<forall>line\<in>set (split_newline t). \<not> startsWith line ''diff --git''"
  then have "parse_loop parse_init (split_newline t) = parse_init"
    by (intro parse_loop_no_file) (simp_all add: parse_init_def)
  then show "parseDiff (Some t) = []"
    by (simp add: parseDiff_def parse_finish_def parse_init_def)
qed (simp_all add: parseDiff_def)

theorem no_header_no_files_example:
  "parseDiff (Some ''--- a/x.txt\<newline>+++ b/x.txt\<newline>@@ -1 +1 @@\<newline>-old\<newline>+new'') = []"
proof -
  let ?t = "''--- a/x.txt\<newline>+++ b/x.txt\<newline>@@ -1 +1 @@\<newline>-old\<newline>+new''"
  have "\<forall>line\<in>set (split_newline ?t). \<not> startsWith line ''diff --git''"
    by (simp add: startsWith_def)
  with no_header_no_files[of ?t] show ?thesis by blast
qed

subsection \<open>Hunk headers that do not match the pattern\<close>

lemma startsWith_hunk_not_others:
  assumes "startsWith line ''@@ ''"
  shows "\<not> startsWith line ''diff --git''" "\<not> startsWith line ''--- a/''"
    "\<not> startsWith line ''+++ b/''"
proof -
  from assms obtain r where "line = CHR ''@'' # CHR ''@'' # CHR '' '' # r"
    by (cases line rule: list.exhaust; simp add: startsWith_def)
       (metis append_take_drop_id append_Cons append_Nil)
  then show "\<not> startsWith line ''diff --git''" "\<not> startsWith line ''--- a/''"
    "\<not> startsWith line ''+++ b/''"
    by (simp_all add: startsWith_def)
qed

text \<open>
  Claim C6. While a file is open, a line that begins with \<open>@@ \<close> and does not match the
  hunk header pattern still opens a new hunk, with both start numbers \<open>0\<close> and no lines;
  the hunk that was open is appended to the file first. The loop then goes on with the
  rest of the lines from that state.
\<close>

theorem malformed_hunk_header_defaults_to_zero:
  assumes "currentFile st = Some f"
    and "startsWith line ''@@ ''"
    and "header_match line = None"
  shows "parse_line st line =
           st\<lparr>currentFile := Some (push_hunk (currentHunk st) f),
              currentHunk := Some \<lparr>header = line, lines = [], oldStart = 0, newStart = 0\<rparr>\<rparr> \<and>
         parse_loop st (line # rest) =
           parse_loop
             (st\<lparr>currentFile := Some (push_hunk (currentHunk st) f),
                 currentHunk := Some \<lparr>header = line, lines = [], oldStart = 0, newStart = 0\<rparr>\<rparr>)
             rest"
  using assms startsWith_hunk_not_others[OF assms(2)]
  by (simp add: parse_line_def)

theorem malformed_hunk_header_example:
  "parse_loop \<lparr>files = [],
               currentFile = Some \<lparr>file_header = ''diff --git a/x b/x'', oldName = [],
                                    newName = [], meta = [], hunks = []\<rparr>,
               currentHunk = None\<rparr> [''@@ -x +y @@'', ''+new''] =
     \<lparr>files = [],
      currentFile = Some \<lparr>file_header = ''diff --git a/x b/x'', oldName = [],
                           newName = [], meta = [], hunks = []\<rparr>,
      currentHunk = Some \<lparr>header = ''@@ -x +y @@'',
                           lines = [\<lparr>content = ''+new'', type = Add\<rparr>],
                           oldStart = 0, newStart = 0\<rparr>\<rparr>"
proof -
  let ?f = "\<lparr>file_header = ''diff --git a/x b/x'', oldName = [],
             newName = [], meta = [], hunks = []\<rparr>"
  let ?st = "\<lparr>files = [], currentFile = Some ?f, currentHunk = None\<rparr>"
  have 1: "currentFile ?st = Some ?f" by simp
  have 2: "startsWith ''@@ -x +y @@'' ''@@ ''" by (simp add: startsWith_def)
  have 3: "header_match ''@@ -x +y @@'' = None"
    by (simp add: match_here_def startsWith_def is_digit_def Let_def)
  from malformed_hunk_header_defaults_to_zero[OF 1 2 3, of "[''+new'']"]
  have "parse_loop ?st [''@@ -x +y @@'', ''+new''] =
     parse_loop (?st\<lparr>currentFile := Some (push_hunk (currentHunk ?st) ?f),
                 currentHunk := Some \<lparr>header = ''@@ -x +y @@'', lines = [],
                                       oldStart = 0, newStart = 0\<rparr>\<rparr>) [''+new'']"
    by blast
  then show ?thesis
    by (simp add: push_hunk_def parse_line_def startsWith_def classify_def)
qed

subsection \<open>The scenario of the specification\<close>

lemma split_scenario:
  "split_newline ''diff --git a/x.txt b/x.txt\<newline>--- a/x.txt\<newline>+++ b/x.txt\<newline>@@ -1,2 +1,2 @@\<newline>-old\<newline>+new\<newline> context\<newline>'' =
     [''diff --git a/x.txt b/x.txt'', ''--- a/x.txt'', ''+++ b/x.txt'', ''@@ -1,2 +1,2 @@'',
      ''-old'', ''+new'', '' context'', '''']"
  by simp

lemma header_scenario: "header_match ''@@ -1,2 +1,2 @@'' = Some (''1'', ''1'')"
  by (simp add: match_here_def startsWith_def optional_count_def is_digit_def Let_def)

lemma parseInt_one: "parseInt ''1'' = 1"
  by (simp add: parseInt_def digit_val_def)

text \<open>
  Claim C3, as amended. The scenario text parses to one file with \<open>oldName\<close> and
  \<open>newName\<close> both \<open>x.txt\<close> and one hunk with both start numbers \<open>1\<close>. The hunk has
  four lines, of kinds delete, add, context, context: the text ends in a newline, so the
  split yields a last, empty line, and an empty line read inside a hunk is a context line.
\<close>

theorem scenario_parses_to_four_lines:
  "parseDiff (Some ''diff --git a/x.txt b/x.txt\<newline>--- a/x.txt\<newline>+++ b/x.txt\<newline>@@ -1,2 +1,2 @@\<newline>-old\<newline>+new\<newline> context\<newline>'') =
     [\<lparr>file_header = ''diff --git a/x.txt b/x.txt'', oldName = ''x.txt'', newName = ''x.txt'',
       meta = [],
       hunks = [\<lparr>header = ''@@ -1,2 +1,2 @@'',
                 lines = [\<lparr>content = ''-old'', type = Delete\<rparr>,
                          \<lparr>content = ''+new'', type = Add\<rparr>,
                          \<lparr>content = '' context'', type = Context\<rparr>,
                          \<lparr>content = '''', type = Context\<rparr>],
                 oldStart = 1, newStart = 1\<rparr>]\<rparr>]"
  by (simp add: parseDiff_def split_scenario parse_init_def parse_line_def startsWith_def
        header_scenario parseInt_one substring_def push_hunk_def classify_def parse_finish_def
        Let_def del: header_match.simps)

text \<open>The claim as first written asks for exactly three lines; the hunk has a fourth.\<close>

theorem scenario_has_a_fourth_line:
  "map type (lines (hunks (parseDiff (Some ''diff --git a/x.txt b/x.txt\<newline>--- a/x.txt\<newline>+++ b/x.txt\<newline>@@ -1,2 +1,2 @@\<newline>-old\<newline>+new\<newline> context\<newline>'') ! 0) ! 0)) =
     [Delete, Add, Context, Context]"
  by (simp add: parseDiff_def split_scenario parse_init_def parse_line_def startsWith_def
        header_scenario parseInt_one substring_def push_hunk_def classify_def parse_finish_def
        Let_def del: header_match.simps)

subsection \<open>The paths of a file\<close>

lemma parse_loop_append: "parse_loop st (xs @ ys) = parse_loop (parse_loop st xs) ys"
  by (induction xs arbitrary: st) simp_all

lemma startsWithD: "startsWith s p \<Longrightarrow> \<exists>r. s = p @ r"
  unfolding startsWith_def by (metis append_take_drop_id)

lemma startsWith_old_not_others:
  assumes "startsWith line ''--- a/''"
  shows "\<not> startsWith line ''diff --git''" "\<not> startsWith line ''+++ b/''"
proof -
  from startsWithD[OF assms] obtain r where "line = ''--- a/'' @ r" by blast
  then show "\<not> startsWith line ''diff --git''" "\<not> startsWith line ''+++ b/''"
    by (simp_all add: startsWith_def)
qed

lemma startsWith_new_not_others:
  assumes "startsWith line ''+++ b/''"
  shows "\<not> startsWith line ''diff --git''" "\<not> startsWith line ''--- a/''"
proof -
  from startsWithD[OF assms] obtain r where "line = ''+++ b/'' @ r" by blast
  then show "\<not> startsWith line ''diff --git''" "\<not> startsWith line ''--- a/''"
    by (simp_all add: startsWith_def)
qed

lemma parse_line_old:
  "currentFile st = Some f \<Longrightarrow> startsWith line ''--- a/'' \<Longrightarrow>
   parse_line st line = st\<lparr>currentFile := Some (f\<lparr>oldName := substring line 6\<rparr>)\<rparr>"
  using startsWith_old_not_others[of line] by (simp add: parse_line_def)

lemma parse_line_new:
  "currentFile st = Some f \<Longrightarrow> startsWith line ''+++ b/'' \<Longrightarrow>
   parse_line st line = st\<lparr>currentFile := Some (f\<lparr>newName := substring line 6\<rparr>)\<rparr>"
  using startsWith_new_not_others[of line] by (simp add: parse_line_def)

text \<open>One line that is not a file header, read while a file is open.\<close>

lemma parse_line_in_file:
  assumes "currentFile st = Some f" and "\<not> startsWith line ''diff --git''"
  shows "files (parse_line st line) = files st \<and>
     (\<exists>f'. currentFile (parse_line st line) = Some f' \<and>
        file_header f' = file_header f \<and>
        oldName f' = (if startsWith line ''--- a/'' then substring line 6 else oldName f) \<and>
        newName f' = (if startsWith line ''+++ b/'' then substring line 6 else newName f))"
proof (cases "startsWith line ''--- a/''")
  case True
  with assms(1) startsWith_old_not_others[OF True] show ?thesis
    by (simp add: parse_line_old)
next
  case no_old: False
  show ?thesis
  proof (cases "startsWith line ''+++ b/''")
    case True
    with assms(1) no_old show ?thesis by (simp add: parse_line_new)
  next
    case False
    with assms no_old show ?thesis
      by (cases "currentHunk st")
         (simp_all add: parse_line_def Let_def push_hunk_def split: option.split)
  qed
qed

lemma last_path_Cons:
  "last_path p (l # body) d = last_path p body (if startsWith l p then substring l 6 else d)"
  by (simp add: last_path_def)

lemma parse_loop_in_file:
  "currentFile st = Some f \<Longrightarrow> \<forall>l\<in>set body. \<not> startsWith l ''diff --git'' \<Longrightarrow>
   files (parse_loop st body) = files st \<and>
     (\<exists>f'. currentFile (parse_loop st body) = Some f' \<and>
        file_header f' = file_header f \<and>
        oldName f' = last_path ''--- a/'' body (oldName f) \<and>
        newName f' = last_path ''+++ b/'' body (newName f))"
proof (induction body arbitrary: st f)
  case Nil
  then show ?case by (simp add: last_path_def)
next
  case (Cons l body)
  from Cons.prems have nd: "\<not> startsWith l ''diff --git''"
    and rest: "\<forall>l\<in>set body. \<not> startsWith l ''diff --git''" by simp_all
  from parse_line_in_file[OF Cons.prems(1) nd] obtain f1 where
    f1: "files (parse_line st l) = files st" "currentFile (parse_line st l) = Some f1"
      "file_header f1 = file_header f"
      "oldName f1 = (if startsWith l ''--- a/'' then substring l 6 else oldName f)"
      "newName f1 = (if startsWith l ''+++ b/'' then substring l 6 else newName f)"
    by blast
  from Cons.IH[OF f1(2) rest] f1 show ?case
    by (simp add: last_path_Cons)
qed

subsection \<open>The list of finished files only grows\<close>

lemma parse_line_files: "\<exists>more. files (parse_line st line) = files st @ more"
  by (simp add: parse_line_def Let_def split: option.split)

lemma parse_loop_files: "\<exists>more. files (parse_loop st ls) = files st @ more"
proof (induction ls arbitrary: st)
  case Nil
  show ?case by simp
next
  case (Cons l ls)
  from parse_line_files[of st l] obtain m1 where m1: "files (parse_line st l) = files st @ m1"
    by blast
  from Cons.IH[of "parse_line st l"] obtain m2 where
    "files (parse_loop (parse_line st l) ls) = files (parse_line st l) @ m2" by blast
  with m1 show ?case by simp
qed

lemma parse_finish_files: "\<exists>more. parse_finish st = files st @ more"
  by (simp add: parse_finish_def split: option.split)

lemma file_count_line:
  "file_count (parse_line st l) =
     file_count st + (if startsWith l ''diff --git'' then 1 else 0)"
proof (cases "startsWith l ''diff --git''")
  case True
  then show ?thesis by (simp add: parse_line_def file_count_def split: option.split)
next
  case False
  show ?thesis
  proof (cases "currentFile st")
    case None
    with False show ?thesis by (simp add: parse_line_no_file)
  next
    case (Some f)
    from parse_line_in_file[OF Some False] False show ?thesis
      by (auto simp: file_count_def Some)
  qed
qed

lemma file_count_loop:
  "file_count (parse_loop st ls) =
     file_count st + length (filter (\<lambda>l. startsWith l ''diff --git'') ls)"
  by (induction ls arbitrary: st) (simp_all add: file_count_line)

lemma parse_block:
  assumes split: "ls = pre @ hdr # body @ rest"
    and hdr: "startsWith hdr ''diff --git''"
    and body: "\<forall>l\<in>set body. \<not> startsWith l ''diff --git''"
    and rest: "rest = [] \<or> startsWith (hd rest) ''diff --git''"
  shows "length (filter (\<lambda>l. startsWith l ''diff --git'') pre)
       < length (parse_finish (parse_loop parse_init ls)) \<and>
     file_header (parse_finish (parse_loop parse_init ls) !
                   length (filter (\<lambda>l. startsWith l ''diff --git'') pre)) = hdr \<and>
     oldName (parse_finish (parse_loop parse_init ls) !
                length (filter (\<lambda>l. startsWith l ''diff --git'') pre)) =
       last_path ''--- a/'' body [] \<and>
     newName (parse_finish (parse_loop parse_init ls) !
                length (filter (\<lambda>l. startsWith l ''diff --git'') pre)) =
       last_path ''+++ b/'' body []"
proof -
  define k where "k = length (filter (\<lambda>l. startsWith l ''diff --git'') pre)"
  define st1 where "st1 = parse_loop parse_init pre"
  define st2 where "st2 = parse_line st1 hdr"
  define st3 where "st3 = parse_loop st2 body"
  define st4 where "st4 = parse_loop st3 rest"
  have run: "parse_loop parse_init ls = st4"
    by (simp add: split parse_loop_append st1_def st2_def st3_def st4_def)
  have "file_count st1 = k"
    by (simp add: st1_def file_count_loop k_def) (simp add: file_count_def parse_init_def)
  then have len2: "length (files st2) = k"
    using hdr by (auto simp: st2_def parse_line_def file_count_def split: option.splits)
  have cur2: "currentFile st2 =
      Some \<lparr>file_header = hdr, oldName = [], newName = [], meta = [], hunks = []\<rparr>"
    using hdr by (simp add: st2_def parse_line_def)
  from parse_loop_in_file[OF cur2 body] obtain f where
    f: "files st3 = files st2" "currentFile st3 = Some f" "file_header f = hdr"
       "oldName f = last_path ''--- a/'' body []" "newName f = last_path ''+++ b/'' body []"
    by (auto simp: st3_def)
  let ?pf = "push_hunk (currentHunk st3) f"
  have pf: "file_header ?pf = hdr" "oldName ?pf = last_path ''--- a/'' body []"
    "newName ?pf = last_path ''+++ b/'' body []"
    using f by (simp_all add: push_hunk_def split: option.split)
  have "\<exists>more. parse_finish st4 = files st2 @ ?pf # more"
  proof (cases rest)
    case Nil
    then show ?thesis using f by (simp add: st4_def parse_finish_def)
  next
    case (Cons r rs)
    with rest have r: "startsWith r ''diff --git''" by simp
    have "files (parse_line st3 r) = files st2 @ [?pf]"
      using r f by (simp add: parse_line_def)
    moreover obtain m1 where "files (parse_loop (parse_line st3 r) rs) = files (parse_line st3 r) @ m1"
      using parse_loop_files by blast
    moreover obtain m2 where "parse_finish st4 = files st4 @ m2"
      using parse_finish_files by blast
    ultimately have "parse_finish st4 = files st2 @ ?pf # (m1 @ m2)"
      by (simp add: st4_def Cons)
    then show ?thesis by blast
  qed
  then obtain more where "parse_finish st4 = files st2 @ ?pf # more" by blast
  with len2 have "k < length (parse_finish st4)" "parse_finish st4 ! k = ?pf"
    by (simp_all add: nth_append)
  with pf run show ?thesis by (simp add: k_def)
qed

text \<open>
  Claim C2, as amended. Every \<open>--- a/\<close> line read while a file is open sets \<open>oldName\<close>
  to the rest of the line, whatever \<open>oldName\<close> was before, and every \<open>+++ b/\<close> line does
  the same for \<open>newName\<close>. So in the parsed result the paths of a file are those of the
  last such lines of its block (the lines between its \<open>diff --git\<close> header and the next
  header or the end of the input), and empty when the block has none. The file of the
  block is found in the result at the number of headers before it.
\<close>

theorem last_path_line_wins:
  "(currentFile st = Some f \<and> startsWith line ''--- a/'' \<longrightarrow>
      parse_line st line = st\<lparr>currentFile := Some (f\<lparr>oldName := substring line 6\<rparr>)\<rparr>) \<and>
   (currentFile st = Some f \<and> startsWith line ''+++ b/'' \<longrightarrow>
      parse_line st line = st\<lparr>currentFile := Some (f\<lparr>newName := substring line 6\<rparr>)\<rparr>) \<and>
   (split_newline t = pre @ hdr # body @ rest \<and>
    startsWith hdr ''diff --git'' \<and>
    (\<forall>l\<in>set body. \<not> startsWith l ''diff --git'') \<and>
    (rest = [] \<or> startsWith (hd rest) ''diff --git'') \<longrightarrow>
      length (filter (\<lambda>l. startsWith l ''diff --git'') pre) < length (parseDiff (Some t)) \<and>
      file_header (parseDiff (Some t) ! length (filter (\<lambda>l. startsWith l ''diff --git'') pre)) = hdr \<and>
      oldName (parseDiff (Some t) ! length (filter (\<lambda>l. startsWith l ''diff --git'') pre)) =
        last_path ''--- a/'' body [] \<and>
      newName (parseDiff (Some t) ! length (filter (\<lambda>l. startsWith l ''diff --git'') pre)) =
        last_path ''+++ b/'' body [])"
proof (intro conjI impI)
  assume "currentFile st = Some f \<and> startsWith line ''--- a/''"
  then show "parse_line st line = st\<lparr>currentFile := Some (f\<lparr>oldName := substring line 6\<rparr>)\<rparr>"
    by (simp add: parse_line_old)
next
  assume "currentFile st = Some f \<and> startsWith line ''+++ b/''"
  then show "parse_line st line = st\<lparr>currentFile := Some (f\<lparr>newName := substring line 6\<rparr>)\<rparr>"
    by (simp add: parse_line_new)
next
  assume a: "split_newline t = pre @ hdr # body @ rest \<and>
    startsWith hdr ''diff --git'' \<and>
    (\<forall>l\<in>set body. \<not> startsWith l ''diff --git'') \<and>
    (rest = [] \<or> startsWith (hd rest) ''diff --git'')"
  have "t \<noteq> []"
  proof
    assume "t = []"
    with a have "[''''] = pre @ hdr # body @ rest" by simp
    then have "hdr = []" by (cases pre) simp_all
    with a show False by (simp add: startsWith_def)
  qed
  then have pd: "parseDiff (Some t) = parse_finish (parse_loop parse_init (split_newline t))"
    by (simp add: parseDiff_def)
  from a have 1: "split_newline t = pre @ hdr # body @ rest"
    and 2: "startsWith hdr ''diff --git''"
    and 3: "\<forall>l\<in>set body. \<not> startsWith l ''diff --git''"
    and 4: "rest = [] \<or> startsWith (hd rest) ''diff --git''" by blast+
  note b = parse_block[OF 1 2 3 4]
  from b show "length (filter (\<lambda>l. startsWith l ''diff --git'') pre) < length (parseDiff (Some t))"
    by (simp add: pd)
  from b show "file_header (parseDiff (Some t) ! length (filter (\<lambda>l. startsWith l ''diff --git'') pre)) = hdr"
    by (simp add: pd)
  from b show "oldName (parseDiff (Some t) ! length (filter (\<lambda>l. startsWith l ''diff --git'') pre)) =
        last_path ''--- a/'' body []"
    by (simp add: pd)
  from b show "newName (parseDiff (Some t) ! length (filter (\<lambda>l. startsWith l ''diff --git'') pre)) =
        last_path ''+++ b/'' body []"
    by (simp add: pd)
qed

theorem last_path_line_wins_example:
  "parse_line \<lparr>files = [],
               currentFile = Some \<lparr>file_header = ''diff --git a/q b/q'', oldName = ''q'',
                                    newName = [], meta = [], hunks = []\<rparr>,
               currentHunk = None\<rparr> ''--- a/r'' =
     \<lparr>files = [],
      currentFile = Some \<lparr>file_header = ''diff --git a/q b/q'', oldName = ''r'',
                           newName = [], meta = [], hunks = []\<rparr>,
      currentHunk = None\<rparr> \<and>
   file_header (parseDiff (Some ''diff --git a/p b/p\<newline>--- a/p\<newline>+++ b/p\<newline>diff --git a/q b/q\<newline>--- a/q\<newline>--- a/r\<newline>+++ b/q'') ! 1) = ''diff --git a/q b/q'' \<and>
   oldName (parseDiff (Some ''diff --git a/p b/p\<newline>--- a/p\<newline>+++ b/p\<newline>diff --git a/q b/q\<newline>--- a/q\<newline>--- a/r\<newline>+++ b/q'') ! 1) = ''r'' \<and>
   newName (parseDiff (Some ''diff --git a/p b/p\<newline>--- a/p\<newline>+++ b/p\<newline>diff --git a/q b/q\<newline>--- a/q\<newline>--- a/r\<newline>+++ b/q'') ! 1) = ''q''"
proof -
  let ?t = "''diff --git a/p b/p\<newline>--- a/p\<newline>+++ b/p\<newline>diff --git a/q b/q\<newline>--- a/q\<newline>--- a/r\<newline>+++ b/q''"
  let ?pre = "[''diff --git a/p b/p'', ''--- a/p'', ''+++ b/p'']"
  let ?hdr = "''diff --git a/q b/q''"
  let ?body = "[''--- a/q'', ''--- a/r'', ''+++ b/q'']"
  let ?f = "\<lparr>file_header = ''diff --git a/q b/q'', oldName = ''q'',
             newName = [], meta = [], hunks = []\<rparr>"
  let ?st = "\<lparr>files = [], currentFile = Some ?f, currentHunk = None\<rparr>"
  note t = last_path_line_wins[where st = ?st and f = ?f and line = "''--- a/r''"
      and t = ?t and pre = ?pre and hdr = ?hdr and body = ?body and rest = "[]"]
  have s: "split_newline ?t = ?pre @ ?hdr # ?body @ []" by simp
  have h: "startsWith ?hdr ''diff --git''" by (simp add: startsWith_def)
  have b: "\<forall>l\<in>set ?body. \<not> startsWith l ''diff --git''" by (simp add: startsWith_def)
  have k: "length (filter (\<lambda>l. startsWith l ''diff --git'') ?pre) = 1"
    by (simp add: startsWith_def)
  have o: "last_path ''--- a/'' ?body [] = ''r''"
    by (simp add: last_path_def startsWith_def substring_def)
  have n: "last_path ''+++ b/'' ?body [] = ''q''"
    by (simp add: last_path_def startsWith_def substring_def)
  have c: "currentFile ?st = Some ?f \<and> startsWith ''--- a/r'' ''--- a/''"
    by (simp add: startsWith_def)
  from t c have 1: "parse_line ?st ''--- a/r'' = ?st\<lparr>currentFile := Some (?f\<lparr>oldName := substring ''--- a/r'' 6\<rparr>)\<rparr>"
    by blast
  from t s h b have 2:
    "file_header (parseDiff (Some ?t) ! length (filter (\<lambda>l. startsWith l ''diff --git'') ?pre)) = ?hdr \<and>
      oldName (parseDiff (Some ?t) ! length (filter (\<lambda>l. startsWith l ''diff --git'') ?pre)) =
        last_path ''--- a/'' ?body [] \<and>
      newName (parseDiff (Some ?t) ! length (filter (\<lambda>l. startsWith l ''diff --git'') ?pre)) =
        last_path ''+++ b/'' ?body []"
    by blast
  from 1 have "parse_line ?st ''--- a/r'' =
     \<lparr>files = [],
      currentFile = Some \<lparr>file_header = ''diff --git a/q b/q'', oldName = ''r'',
                           newName = [], meta = [], hunks = []\<rparr>,
      currentHunk = None\<rparr>" by (simp add: substring_def)
  moreover from 2 have "file_header (parseDiff (Some ?t) ! 1) = ?hdr"
    "oldName (parseDiff (Some ?t) ! 1) = ''r''" "newName (parseDiff (Some ?t) ! 1) = ''q''"
    unfolding k o n by blast+
  ultimately show ?thesis by (intro conjI)
qed

text \<open>
  The claim as first written fails: a second \<open>--- a/\<close> line is not ignored. Here it is the
  deletion of a line \<open>-- a/y\<close> inside the hunk of the file, and it replaces \<open>oldName\<close>;
  likewise for the added line \<open>++ b/z\<close>.
\<close>

theorem later_path_line_overwrites:
  "oldName (parseDiff (Some ''diff --git a/x b/x\<newline>--- a/x\<newline>+++ b/x\<newline>@@ -1 +1 @@\<newline>--- a/y\<newline>+++ b/z'') ! 0) = ''y'' \<and>
   newName (parseDiff (Some ''diff --git a/x b/x\<newline>--- a/x\<newline>+++ b/x\<newline>@@ -1 +1 @@\<newline>--- a/y\<newline>+++ b/z'') ! 0) = ''z''"
proof -
  have s: "split_newline ''diff --git a/x b/x\<newline>--- a/x\<newline>+++ b/x\<newline>@@ -1 +1 @@\<newline>--- a/y\<newline>+++ b/z'' =
    [''diff --git a/x b/x'', ''--- a/x'', ''+++ b/x'', ''@@ -1 +1 @@'', ''--- a/y'', ''+++ b/z'']"
    by simp
  show ?thesis
    by (simp add: parseDiff_def s parse_init_def parse_line_def startsWith_def substring_def
        push_hunk_def parse_finish_def Let_def del: header_match.simps)
qed

end
